theory Spec2Isabelle
  imports Complex_Main "HOL-Library.AList" "HOL-Library.Char_ord" "HOL-Library.List_Lexorder"
begin

section \<open>Data shared by the training scripts\<close>

text \<open>
  The scripts of \<^verbatim>\<open>assignment_4/src\<close> are embedded as pure functions. A finite Python
  float is the real number it denotes; the arithmetic of the split index is rounded to
  binary64 as Python does, metric values are compared as reals (infinities and NaN are
  outside the model). Every \<^verbatim>\<open>raise\<close>, failed lookup and \<^verbatim>\<open>sys.exit\<close> is a value of
  \<open>error\<close>.
\<close>

datatype error =
    SystemExit nat
  | KeyError string
  | IndexError
  | ValueError
  | TypeError
  | FileNotFoundError

datatype kpi_status = PASS | FAIL

text \<open>The dictionary returned by \<^verbatim>\<open>compute_metrics\<close>.\<close>

record metrics =
  rmse :: real
  mae :: real
  r2 :: real

text \<open>\<^verbatim>\<open>params["kpi"]["thresholds"]\<close>.\<close>

record kpi_thresholds =
  rmse_acceptable :: real
  mae_acceptable :: real
  r2_minimum :: real

text \<open>One line of a gold CSV file: the \<^verbatim>\<open>date\<close> column, the feature columns, the target.\<close>

record row =
  date :: int
  features :: "real list"
  target :: real

type_synonym hyperparams = "(string \<times> real) list"

text \<open>
  \<^verbatim>\<open>params.yaml\<close> is read by \<^verbatim>\<open>load_params\<close> and is not part of the sources; its
  content is a parameter of every function below.
\<close>

record params =
  data :: "string \<rightharpoonup> string"
  model_type :: string
  model_hp :: "string \<rightharpoonup> real"
  test_size :: real
  thresholds :: kpi_thresholds
  tuning :: "string \<rightharpoonup> real list"

text \<open>
  The model backend (scikit-learn) is a black box: \<open>fit_eval mtype hp train held\<close> stands
  for building a model of family \<open>mtype\<close> with hyperparameters \<open>hp\<close>, fitting it on
  \<open>train\<close>, predicting \<open>held\<close> and applying \<^verbatim>\<open>compute_metrics\<close>; a backend exception is
  an \<open>Inl\<close>.
\<close>

type_synonym backend = "string \<Rightarrow> hyperparams \<Rightarrow> row list \<Rightarrow> row list \<Rightarrow> error + metrics"

text \<open>A run as MLflow records it once \<^verbatim>\<open>train_model\<close> has returned.\<close>

record run =
  run_name :: string
  data_version :: string
  n_train_samples :: nat
  n_test_samples :: nat
  logged_params :: hyperparams
  train_metrics :: metrics
  test_metrics :: metrics
  cv_metrics :: "(string \<times> real) list"
  kpi_tag :: kpi_status

section \<open>train.py\<close>

subsection \<open>Python and pandas primitives\<close>

text \<open>
  Binary64 arithmetic. \<open>bit_length\<close> is Python's \<^verbatim>\<open>int.bit_length\<close>, \<open>ilog2 x\<close> the
  exponent of the power of two at or below a positive \<open>x\<close>. \<open>round64\<close> rounds a real to
  the nearest binary64 value (53-bit significand, ties to even, subnormals from
  \<open>2 powi (- 1074)\<close>); overflow to infinity is outside the model. A float operation is the
  exact operation followed by \<open>round64\<close>.
\<close>

fun bit_length :: "nat \<Rightarrow> nat" where
  "bit_length n = (if n = 0 then 0 else Suc (bit_length (n div 2)))"

declare bit_length.simps [simp del]

definition ilog2 :: "real \<Rightarrow> int" where
  "ilog2 x = (if 1 \<le> x then int (bit_length (nat \<lfloor>x\<rfloor>)) - 1
              else - int (bit_length (nat (\<lceil>1 / x\<rceil> - 1))))"

definition round_half_even :: "real \<Rightarrow> int" where
  "round_half_even x =
     (let f = \<lfloor>x\<rfloor>; d = x - of_int f
      in if d < 1 / 2 then f else if 1 / 2 < d then f + 1 else if even f then f else f + 1)"

definition round64 :: "real \<Rightarrow> real" where
  "round64 x =
     (if x = 0 then 0
      else let e = max (ilog2 \<bar>x\<bar> - 52) (- 1074)
           in sgn x * of_int (round_half_even (\<bar>x\<bar> / 2 powi e)) * 2 powi e)"

text \<open>\<^verbatim>\<open>float(n)\<close> of an integer, and \<^verbatim>\<open>a - b\<close>, \<^verbatim>\<open>a * b\<close> on floats.\<close>

definition float_of_int :: "int \<Rightarrow> real" where
  "float_of_int n = round64 (of_int n)"

definition fsub :: "real \<Rightarrow> real \<Rightarrow> real" where
  "fsub a b = round64 (a - b)"

definition fmul :: "real \<Rightarrow> real \<Rightarrow> real" where
  "fmul a b = round64 (a * b)"

text \<open>\<^verbatim>\<open>int(x)\<close> on a float truncates towards zero.\<close>

definition py_int :: "real \<Rightarrow> int" where
  "py_int x = (if 0 \<le> x then \<lfloor>x\<rfloor> else \<lceil>x\<rceil>)"

text \<open>\<^verbatim>\<open>df.iloc[:k]\<close> and \<^verbatim>\<open>df.iloc[k:]\<close>; a negative bound counts from the end.\<close>

definition iloc_to :: "int \<Rightarrow> 'a list \<Rightarrow> 'a list" where
  "iloc_to k xs = (if k < 0 then take (length xs - nat (- k)) xs else take (nat k) xs)"

definition iloc_from :: "int \<Rightarrow> 'a list \<Rightarrow> 'a list" where
  "iloc_from k xs = (if k < 0 then drop (length xs - nat (- k)) xs else drop (nat k) xs)"

text \<open>\<^verbatim>\<open>np.mean\<close> and \<^verbatim>\<open>np.std\<close> (population standard deviation).\<close>

definition np_mean :: "real list \<Rightarrow> real" where
  "np_mean xs = sum_list xs / real (length xs)"

definition np_std :: "real list \<Rightarrow> real" where
  "np_std xs = sqrt (np_mean (map (\<lambda>x. (x - np_mean xs)\<^sup>2) xs))"

subsection \<open>Loading and splitting\<close>

text \<open>
  \<^verbatim>\<open>load_gold_data\<close>: the frame sorted by \<^verbatim>\<open>date\<close>. The columns \<^verbatim>\<open>X\<close>, \<^verbatim>\<open>y\<close> and
  \<^verbatim>\<open>dates\<close> are kept together as rows; slicing the rows slices each column alike.
  In \<^verbatim>\<open>int(n * (1 - test_size))\<close> the integers \<^verbatim>\<open>1\<close> and \<^verbatim>\<open>n\<close> become floats and both
  operations round.
\<close>

definition load_gold_data :: "row list \<Rightarrow> row list" where
  "load_gold_data df = sort_key date df"

definition temporal_train_test_split :: "row list \<Rightarrow> real \<Rightarrow> row list \<times> row list" where
  "temporal_train_test_split X tsize =
     (let n = length X;
          split_idx = py_int (fmul (float_of_int (int n)) (fsub 1 tsize))
      in (iloc_to split_idx X, iloc_from split_idx X))"

subsection \<open>KPI assessment\<close>

definition rmse_ok :: "metrics \<Rightarrow> kpi_thresholds \<Rightarrow> bool" where
  "rmse_ok tm th = (rmse tm < rmse_acceptable th)"

definition mae_ok :: "metrics \<Rightarrow> kpi_thresholds \<Rightarrow> bool" where
  "mae_ok tm th = (mae tm < mae_acceptable th)"

definition r2_ok :: "metrics \<Rightarrow> kpi_thresholds \<Rightarrow> bool" where
  "r2_ok tm th = (r2 tm > r2_minimum th)"

text \<open>The \<^verbatim>\<open>status\<close> of \<^verbatim>\<open>train_model\<close>; \<open>mae_ok\<close> is only printed.\<close>

definition train_status :: "metrics \<Rightarrow> kpi_thresholds \<Rightarrow> kpi_status" where
  "train_status tm th = (if rmse_ok tm th \<and> r2_ok tm th then PASS else FAIL)"

text \<open>The \<^verbatim>\<open>passes\<close> flag of \<^verbatim>\<open>tune_model\<close> and the tag it sets.\<close>

definition passes :: "metrics \<Rightarrow> kpi_thresholds \<Rightarrow> bool" where
  "passes tm th = (rmse tm < rmse_acceptable th \<and> r2 tm > r2_minimum th)"

definition tune_status :: "metrics \<Rightarrow> kpi_thresholds \<Rightarrow> kpi_status" where
  "tune_status tm th = (if passes tm th then PASS else FAIL)"

subsection \<open>Walk-forward cross-validation\<close>

text \<open>\<^verbatim>\<open>range(start, stop, step)\<close> for a positive step.\<close>

definition py_range :: "nat \<Rightarrow> nat \<Rightarrow> nat \<Rightarrow> nat list" where
  "py_range start stop step = map (\<lambda>i. start + i * step) [0..<(stop - start + step - 1) div step]"

text \<open>
  \<^verbatim>\<open>TimeSeriesSplit(n_splits).split(X)\<close> of scikit-learn (library code, default gap and
  train size): it refuses a frame with fewer samples than folds, otherwise it yields
  \<open>n_splits\<close> pairs of index lists, the train indices before each test block.
\<close>

definition time_series_split :: "nat \<Rightarrow> nat \<Rightarrow> error + (nat list \<times> nat list) list" where
  "time_series_split n_splits n_samples =
     (let n_folds = n_splits + 1;
          tsz = n_samples div n_folds
      in if n_folds > n_samples then Inl ValueError
         else if int n_samples - int (tsz * n_splits) \<le> 0 then Inl ValueError
         else Inr (map (\<lambda>test_start. ([0..<test_start], [test_start..<test_start + tsz]))
                    (py_range (n_samples - n_splits * tsz) n_samples tsz)))"

text \<open>\<^verbatim>\<open>X.iloc[idx]\<close> for an array of positions.\<close>

definition iloc_idx :: "'a list \<Rightarrow> nat list \<Rightarrow> 'a list" where
  "iloc_idx X idx = map ((!) X) idx"

text \<open>The fold loop: a clone of the model is fitted on each fold and scored on its validation block.\<close>

fun cv_folds :: "(row list \<Rightarrow> row list \<Rightarrow> error + metrics) \<Rightarrow> row list \<Rightarrow>
    (nat list \<times> nat list) list \<Rightarrow> error + metrics list" where
  "cv_folds fe X [] = Inr []"
| "cv_folds fe X ((train_idx, val_idx) # rest) =
     (case fe (iloc_idx X train_idx) (iloc_idx X val_idx) of
        Inl e \<Rightarrow> Inl e
      | Inr m \<Rightarrow> (case cv_folds fe X rest of Inl e \<Rightarrow> Inl e | Inr ms \<Rightarrow> Inr (m # ms)))"

definition cv_results :: "metrics list \<Rightarrow> (string \<times> real) list" where
  "cv_results fold_metrics =
     concat (map (\<lambda>(key, sel). [(''cv_'' @ key @ ''_mean'', np_mean (map sel fold_metrics)),
                                 (''cv_'' @ key @ ''_std'', np_std (map sel fold_metrics))])
               [(''rmse'', rmse), (''mae'', mae), (''r2'', r2)])"

definition cross_validate_timeseries ::
    "(row list \<Rightarrow> row list \<Rightarrow> error + metrics) \<Rightarrow> row list \<Rightarrow> nat \<Rightarrow> error + (string \<times> real) list" where
  "cross_validate_timeseries fe X n_splits =
     (case time_series_split n_splits (length X) of
        Inl e \<Rightarrow> Inl e
      | Inr folds \<Rightarrow>
          (case cv_folds fe X folds of
             Inl e \<Rightarrow> Inl e
           | Inr fold_metrics \<Rightarrow>
               (case fold_metrics of
                  [] \<Rightarrow> Inl IndexError
                | m # ms \<Rightarrow> Inr (cv_results fold_metrics))))"

subsection \<open>train\_model\<close>

text \<open>\<^verbatim>\<open>d[k]\<close> raises KeyError on a missing key; \<^verbatim>\<open>d.get(k, default)\<close> does not.\<close>

definition getitem :: "(string \<rightharpoonup> 'v) \<Rightarrow> string \<Rightarrow> error + 'v" where
  "getitem d k = (case d k of None \<Rightarrow> Inl (KeyError k) | Some v \<Rightarrow> Inr v)"

definition get_default :: "(string \<rightharpoonup> 'v) \<Rightarrow> string \<Rightarrow> 'v \<Rightarrow> 'v" where
  "get_default d k dflt = (case d k of None \<Rightarrow> dflt | Some v \<Rightarrow> v)"

text \<open>A dictionary literal whose values are looked up in turn; the first missing key raises.\<close>

fun lookup_all :: "(string \<rightharpoonup> real) \<Rightarrow> string list \<Rightarrow> error + hyperparams" where
  "lookup_all d [] = Inr []"
| "lookup_all d (k # ks) =
     (case getitem d k of
        Inl e \<Rightarrow> Inl e
      | Inr v \<Rightarrow> (case lookup_all d ks of Inl e \<Rightarrow> Inl e | Inr kvs \<Rightarrow> Inr ((k, v) # kvs)))"

text \<open>
  The choice of the model family and its hyperparameters; \<^verbatim>\<open>custom_params or {...}\<close>
  takes the defaults when the override is missing or empty.
\<close>

definition select_model :: "params \<Rightarrow> string \<Rightarrow> hyperparams option \<Rightarrow> error + hyperparams" where
  "select_model p mtype custom_params =
     (let custom = (case custom_params of None \<Rightarrow> [] | Some c \<Rightarrow> c) in
      if mtype = ''gradient_boosting'' then
        (if custom \<noteq> [] then Inr custom
         else lookup_all (model_hp p)
                [''n_estimators'', ''max_depth'', ''learning_rate'', ''min_samples_split'',
                 ''min_samples_leaf'', ''subsample'', ''random_state''])
      else if mtype = ''random_forest'' then
        (if custom \<noteq> [] then Inr custom
         else (case getitem (model_hp p) ''random_state'' of
                 Inl e \<Rightarrow> Inl e
               | Inr rs \<Rightarrow> Inr [(''n_estimators'', get_default (model_hp p) ''n_estimators'' 100),
                                (''max_depth'', get_default (model_hp p) ''max_depth'' 5),
                                (''random_state'', rs)]))
      else if mtype = ''linear_regression'' then Inr []
      else Inl (SystemExit 1))"

text \<open>
  \<^verbatim>\<open>train_model(data_version, model_type, custom_params)\<close>. \<open>fs\<close> maps a path to the rows
  of the CSV file there (\<open>None\<close>: no such file), \<open>be\<close> is the model backend. The printed
  date ranges read \<^verbatim>\<open>dates_train.iloc[0]\<close> and \<^verbatim>\<open>dates_test.iloc[0]\<close>, which raise
  IndexError on an empty partition.
\<close>

definition train_model ::
    "params \<Rightarrow> (string \<rightharpoonup> row list) \<Rightarrow> backend \<Rightarrow> string \<Rightarrow> string option \<Rightarrow> hyperparams option \<Rightarrow>
     error + run" where
  "train_model p fs be dversion mtype_arg custom_params =
     (case getitem (data p) (''gold_'' @ dversion) of
        Inl e \<Rightarrow> Inl e
      | Inr data_path \<Rightarrow>
     (case fs data_path of
        None \<Rightarrow> Inl (SystemExit 1)
      | Some csv \<Rightarrow>
     (let X = load_gold_data csv;
          (X_train, X_test) = temporal_train_test_split X (test_size p)
      in if X_train = [] \<or> X_test = [] then Inl IndexError
         else
     (let mtype = (case mtype_arg of None \<Rightarrow> model_type p
                   | Some t \<Rightarrow> if t = [] then model_type p else t)
      in
     (case select_model p mtype custom_params of
        Inl e \<Rightarrow> Inl e
      | Inr hp \<Rightarrow>
     (case be mtype hp X_train X_train of
        Inl e \<Rightarrow> Inl e
      | Inr train_m \<Rightarrow>
     (case be mtype hp X_train X_test of
        Inl e \<Rightarrow> Inl e
      | Inr test_m \<Rightarrow>
     (case cross_validate_timeseries (be mtype hp) X_train 5 of
        Inl e \<Rightarrow> Inl e
      | Inr cv \<Rightarrow>
          Inr \<lparr>run_name = mtype @ ''_'' @ dversion,
               data_version = dversion,
               n_train_samples = length X_train,
               n_test_samples = length X_test,
               logged_params = hp,
               train_metrics = train_m,
               test_metrics = test_m,
               cv_metrics = cv,
               kpi_tag = train_status test_m (thresholds p)\<rparr>))))))))"

section \<open>tune.py\<close>

text \<open>\<^verbatim>\<open>itertools.product(*lists)\<close>: the tuples in the order of nested loops, the last list fastest.\<close>

fun itertools_product :: "'a list list \<Rightarrow> 'a list list" where
  "itertools_product [] = [[]]"
| "itertools_product (xs # xss) = concat (map (\<lambda>x. map ((#) x) (itertools_product xss)) xs)"

text \<open>One MLflow run of the search: its position, what it logged, whether the model was stored.\<close>

record tune_run =
  run_index :: nat
  tuned_hp :: hyperparams
  cv_rmse_mean :: real
  cv_rmse_std :: real
  tune_metrics :: metrics
  tune_tag :: kpi_status
  model_logged :: bool

text \<open>
  The hyperparameters of one configuration: \<^verbatim>\<open>dict(zip(keys, values))\<close> and the three
  entries copied from \<^verbatim>\<open>params["model"]\<close>.
\<close>

definition tune_hp :: "params \<Rightarrow> string list \<Rightarrow> real list \<Rightarrow> error + hyperparams" where
  "tune_hp p keys vals =
     (case getitem (model_hp p) ''random_state'' of
        Inl e \<Rightarrow> Inl e
      | Inr rs \<Rightarrow>
     (case getitem (model_hp p) ''subsample'' of
        Inl e \<Rightarrow> Inl e
      | Inr ss \<Rightarrow>
     (case getitem (model_hp p) ''min_samples_leaf'' of
        Inl e \<Rightarrow> Inl e
      | Inr msl \<Rightarrow>
          Inr (AList.update ''min_samples_leaf'' msl
                (AList.update ''subsample'' ss
                  (AList.update ''random_state'' rs (zip keys vals)))))))"

text \<open>
  The search state: \<open>None\<close> is the initial \<^verbatim>\<open>best_rmse = float("inf")\<close> with no best run,
  \<open>Some (best_rmse, best_run_id, best_params)\<close> the best so far. The comparison
  \<^verbatim>\<open>test_metrics["rmse"] < best_rmse\<close> is strict.
\<close>

type_synonym best = "(real \<times> nat \<times> hyperparams) option"

definition improves :: "real \<Rightarrow> best \<Rightarrow> bool" where
  "improves r b = (case b of None \<Rightarrow> True | Some (best_rmse, best_run_id, best_params) \<Rightarrow> r < best_rmse)"

text \<open>The body of the loop for configuration \<open>i\<close> with values \<open>vals\<close>.\<close>

definition tune_step ::
    "params \<Rightarrow> backend \<Rightarrow> row list \<Rightarrow> row list \<Rightarrow> string list \<Rightarrow> best \<times> tune_run list \<Rightarrow> nat \<times> real list \<Rightarrow>
     error + best \<times> tune_run list" where
  "tune_step p be X_train X_test keys st iv =
     (case st of (b, runs) \<Rightarrow> case iv of (i, vals) \<Rightarrow>
     (case tune_hp p keys vals of
        Inl e \<Rightarrow> Inl e
      | Inr hp \<Rightarrow>
     (case time_series_split 3 (length X_train) of
        Inl e \<Rightarrow> Inl e
      | Inr folds \<Rightarrow>
     (case cv_folds (be ''gradient_boosting'' hp) X_train folds of
        Inl e \<Rightarrow> Inl e
      | Inr fold_metrics \<Rightarrow>
     (case be ''gradient_boosting'' hp X_train X_test of
        Inl e \<Rightarrow> Inl e
      | Inr test_m \<Rightarrow>
          (let is_best = improves (rmse test_m) b;
               r = \<lparr>run_index = i,
                    tuned_hp = hp,
                    cv_rmse_mean = np_mean (map rmse fold_metrics),
                    cv_rmse_std = np_std (map rmse fold_metrics),
                    tune_metrics = test_m,
                    tune_tag = tune_status test_m (thresholds p),
                    model_logged = is_best\<rparr>
           in Inr (if is_best then Some (rmse test_m, i, hp) else b, runs @ [r])))))))"

fun tune_loop ::
    "params \<Rightarrow> backend \<Rightarrow> row list \<Rightarrow> row list \<Rightarrow> string list \<Rightarrow> best \<times> tune_run list \<Rightarrow> (nat \<times> real list) list \<Rightarrow>
     error + best \<times> tune_run list" where
  "tune_loop p be X_train X_test keys st [] = Inr st"
| "tune_loop p be X_train X_test keys st (iv # ivs) =
     (case tune_step p be X_train X_test keys st iv of
        Inl e \<Rightarrow> Inl e
      | Inr st' \<Rightarrow> tune_loop p be X_train X_test keys st' ivs)"

definition grid_keys :: "string list" where
  "grid_keys = [''n_estimators'', ''max_depth'', ''learning_rate'', ''min_samples_split'']"

fun param_grid :: "(string \<rightharpoonup> real list) \<Rightarrow> string list \<Rightarrow> error + real list list" where
  "param_grid d [] = Inr []"
| "param_grid d (k # ks) =
     (case getitem d k of
        Inl e \<Rightarrow> Inl e
      | Inr vs \<Rightarrow> (case param_grid d ks of Inl e \<Rightarrow> Inl e | Inr vss \<Rightarrow> Inr (vs # vss)))"

text \<open>
  \<^verbatim>\<open>tune_model(data_version)\<close>: the identifier of the best run (here its position in the
  enumeration) together with the runs logged. \<^verbatim>\<open>pd.read_csv\<close> raises on a missing file;
  \<^verbatim>\<open>best_run_id[:8]\<close> raises TypeError when no run became best.
\<close>

definition tune_model ::
    "params \<Rightarrow> (string \<rightharpoonup> row list) \<Rightarrow> backend \<Rightarrow> string \<Rightarrow> error + nat \<times> tune_run list" where
  "tune_model p fs be dversion =
     (case getitem (data p) (''gold_'' @ dversion) of
        Inl e \<Rightarrow> Inl e
      | Inr data_path \<Rightarrow>
     (case fs data_path of
        None \<Rightarrow> Inl FileNotFoundError
      | Some csv \<Rightarrow>
     (let X = load_gold_data csv;
          (X_train, X_test) = temporal_train_test_split X (test_size p)
      in
     (case param_grid (tuning p) grid_keys of
        Inl e \<Rightarrow> Inl e
      | Inr value_lists \<Rightarrow>
     (let combinations = itertools_product value_lists in
     (case tune_loop p be X_train X_test grid_keys (None, []) (enumerate 0 combinations) of
        Inl e \<Rightarrow> Inl e
      | Inr (b, runs) \<Rightarrow>
          (case b of
             None \<Rightarrow> Inl TypeError
           | Some (best_rmse, best_run_id, best_params) \<Rightarrow> Inr (best_run_id, runs))))))))"

section \<open>update\_model.py\<close>

subsection \<open>Snapshots and change detection\<close>

text \<open>\<^verbatim>\<open>s.endswith(suffix)\<close> and \<^verbatim>\<open>sub in s\<close> on strings.\<close>

definition endswith :: "string \<Rightarrow> string \<Rightarrow> bool" where
  "endswith s suffix = (length suffix \<le> length s \<and> drop (length s - length suffix) s = suffix)"

fun contains :: "string \<Rightarrow> string \<Rightarrow> bool" where
  "contains sub [] = (sub = [])"
| "contains sub (c # cs) = (take (length sub) (c # cs) = sub \<or> contains sub cs)"

text \<open>An entry of the directory \<^verbatim>\<open>data/gold\<close>: its name, bytes, modification time and size.\<close>

record gold_file =
  fname :: string
  content :: string
  modified :: real
  nbytes :: nat

record snapshot =
  path :: string
  md5 :: string
  mtime :: real
  fsize :: nat

text \<open>
  A Python dictionary with string keys is an association list in insertion order;
  \<open>AList.update\<close> is item assignment. \<open>digest\<close> stands for the MD5 hex digest computed
  by \<^verbatim>\<open>compute_file_hash\<close>; the directory listing is \<open>dir\<close>.
\<close>

type_synonym data_state = "(string \<times> snapshot) list"

definition get_data_state :: "(string \<Rightarrow> string) \<Rightarrow> gold_file list \<Rightarrow> data_state" where
  "get_data_state digest dir =
     foldl (\<lambda>state f.
              if endswith (fname f) ''.csv''
              then AList.update (fname f)
                     \<lparr>path = ''data/gold/'' @ fname f, md5 = digest (content f),
                      mtime = modified f, fsize = nbytes f\<rparr> state
              else state)
       [] (sort_key fname dir)"

text \<open>
  The state file \<^verbatim>\<open>models/data_state.json\<close>: \<open>None\<close> when it does not exist. In a JSON
  object read back, a repeated key keeps its last value.
\<close>

definition load_last_state :: "data_state option \<Rightarrow> (string \<rightharpoonup> snapshot)" where
  "load_last_state state_file = (case state_file of None \<Rightarrow> Map.empty | Some js \<Rightarrow> map_of (rev js))"

definition save_state :: "data_state \<Rightarrow> data_state option" where
  "save_state state = Some state"

definition detect_step ::
    "(string \<rightharpoonup> snapshot) \<Rightarrow> string list \<times> string list \<Rightarrow> string \<times> snapshot \<Rightarrow> string list \<times> string list" where
  "detect_step last_state acc item =
     (case acc of (new_files, modified_files) \<Rightarrow> case item of (name, info) \<Rightarrow>
        (case last_state name of
           None \<Rightarrow> (new_files @ [name], modified_files)
         | Some old \<Rightarrow>
             if md5 old \<noteq> md5 info then (new_files, modified_files @ [name])
             else (new_files, modified_files)))"

definition detect_new_data ::
    "(string \<Rightarrow> string) \<Rightarrow> gold_file list \<Rightarrow> data_state option \<Rightarrow> string list \<times> string list \<times> data_state" where
  "detect_new_data digest dir state_file =
     (let current_state = get_data_state digest dir;
          last_state = load_last_state state_file;
          (new_files, modified_files) = foldl (detect_step last_state) ([], []) current_state
      in (new_files, modified_files, current_state))"

subsection \<open>The update pipeline\<close>

text \<open>
  \<^verbatim>\<open>get_current_best_model\<close>: the query of the run registry for the PASS run of lowest
  test RMSE; \<open>None\<close> for the registry is a missing experiment.
\<close>

definition get_current_best_model :: "run list option \<Rightarrow> run option" where
  "get_current_best_model registry =
     (case registry of
        None \<Rightarrow> None
      | Some all_runs \<Rightarrow>
          (case sort_key (\<lambda>r. rmse (test_metrics r)) (filter (\<lambda>r. kpi_tag r = PASS) all_runs) of
             [] \<Rightarrow> None
           | r # rs \<Rightarrow> Some r))"

text \<open>Step 2: the version of each changed file, by the first marker its name contains.\<close>

fun versions_to_train :: "string list \<Rightarrow> string list" where
  "versions_to_train [] = []"
| "versions_to_train (name # names) =
     (if contains ''v1'' name then ''v1'' # versions_to_train names
      else if contains ''v2'' name then ''v2'' # versions_to_train names
      else versions_to_train names)"

text \<open>
  Step 5: what the pipeline reports for a new run. \<open>PROMOTE\<close> is the message
  "New model is better. Promoting.", \<open>HOLD\<close> is "New model logged but not promoted.",
  \<open>NO_INCUMBENT\<close> is the case without a current best model, where nothing is compared.
\<close>

datatype promotion = PROMOTE | HOLD | NO_INCUMBENT

definition compare_with_best :: "run option \<Rightarrow> run \<Rightarrow> promotion" where
  "compare_with_best current_best new_run =
     (case current_best of
        None \<Rightarrow> NO_INCUMBENT
      | Some best_run \<Rightarrow>
          (let new_rmse = rmse (test_metrics new_run);
               old_rmse = rmse (test_metrics best_run);
               delta = new_rmse - old_rmse
           in if delta < 0 then PROMOTE else HOLD))"

text \<open>
  Step 4: the loop over the versions. An exception or \<^verbatim>\<open>sys.exit\<close> raised by
  \<^verbatim>\<open>train_model\<close> is not caught and ends the loop; the log keeps every version attempted.
\<close>

type_synonym attempt = "string \<times> (error + run \<times> promotion)"

fun retrain :: "(string \<Rightarrow> error + run) \<Rightarrow> run option \<Rightarrow> attempt list \<Rightarrow> string list \<Rightarrow>
    attempt list \<times> error option" where
  "retrain tm current_best done_log [] = (done_log, None)"
| "retrain tm current_best done_log (v # vs) =
     (case tm v of
        Inl e \<Rightarrow> (done_log @ [(v, Inl e)], Some e)
      | Inr new_run \<Rightarrow>
          retrain tm current_best (done_log @ [(v, Inr (new_run, compare_with_best current_best new_run))]) vs)"

text \<open>Everything \<^verbatim>\<open>update_pipeline\<close> reads: configuration, files, registry, backend.\<close>

record world =
  config :: params
  gold_dir :: "gold_file list"
  state_file :: "data_state option"
  datasets :: "string \<rightharpoonup> row list"
  registry :: "run list option"
  engine :: backend
  hexdigest :: "string \<Rightarrow> string"

datatype exit_status = UpToDate | NoVersion | Complete | Failed error

text \<open>What a call of \<^verbatim>\<open>update_pipeline\<close> leaves behind.\<close>

record outcome =
  attempts :: "attempt list"
  state_after :: "data_state option"
  status :: exit_status

definition update_pipeline :: "world \<Rightarrow> outcome" where
  "update_pipeline w =
     (case detect_new_data (hexdigest w) (gold_dir w) (state_file w) of
        (new_files, modified_files, current_state) \<Rightarrow>
          if new_files = [] \<and> modified_files = []
          then \<lparr>attempts = [], state_after = state_file w, status = UpToDate\<rparr>
          else
            (let all_changed = new_files @ modified_files;
                 versions = versions_to_train all_changed
             in if versions = []
                then \<lparr>attempts = [], state_after = state_file w, status = NoVersion\<rparr>
                else
                  (let current_best = get_current_best_model (registry w) in
                   case retrain (\<lambda>v. train_model (config w) (datasets w) (engine w) v None None)
                          current_best [] versions of
                     (tried, Some e) \<Rightarrow>
                       \<lparr>attempts = tried, state_after = state_file w, status = Failed e\<rparr>
                   | (tried, None) \<Rightarrow>
                       \<lparr>attempts = tried, state_after = save_state current_state, status = Complete\<rparr>)))"

section \<open>Names used in the statements\<close>

text \<open>
  The list \<^verbatim>\<open>all_changed\<close> of \<^verbatim>\<open>update_pipeline\<close>, the call \<^verbatim>\<open>train_model(version)\<close> it
  makes, and the log entry of one version.
\<close>

definition all_changed :: "world \<Rightarrow> string list" where
  "all_changed w =
     (case detect_new_data (hexdigest w) (gold_dir w) (state_file w) of
        (new_files, modified_files, current_state) \<Rightarrow> new_files @ modified_files)"

definition train_version :: "world \<Rightarrow> string \<Rightarrow> error + run" where
  "train_version w v = train_model (config w) (datasets w) (engine w) v None None"

definition decided :: "(string \<Rightarrow> error + run) \<Rightarrow> run option \<Rightarrow> string \<Rightarrow> attempt" where
  "decided tm cb v = (v, case tm v of Inl e \<Rightarrow> Inl e | Inr r \<Rightarrow> Inr (r, compare_with_best cb r))"

text \<open>The \<^verbatim>\<open>split_idx\<close> of \<^verbatim>\<open>temporal_train_test_split\<close> for \<open>n\<close> rows.\<close>

definition split_index :: "nat \<Rightarrow> real \<Rightarrow> int" where
  "split_index n tsize = py_int (fmul (float_of_int (int n)) (fsub 1 tsize))"

text \<open>The snapshot \<^verbatim>\<open>get_data_state\<close> stores for one file, and the body of its loop.\<close>

definition snapshot_of :: "(string \<Rightarrow> string) \<Rightarrow> gold_file \<Rightarrow> snapshot" where
  "snapshot_of digest f =
     \<lparr>path = ''data/gold/'' @ fname f, md5 = digest (content f), mtime = modified f, fsize = nbytes f\<rparr>"

definition state_step :: "(string \<Rightarrow> string) \<Rightarrow> data_state \<Rightarrow> gold_file \<Rightarrow> data_state" where
  "state_step digest state f =
     (if endswith (fname f) ''.csv'' then AList.update (fname f) (snapshot_of digest f) state else state)"

text \<open>The test RMSE logged by run \<open>j\<close> of a search.\<close>

definition test_rmse :: "tune_run list \<Rightarrow> nat \<Rightarrow> real" where
  "test_rmse runs j = rmse (tune_metrics (runs ! j))"

text \<open>
  What holds of the search state after each configuration: the runs are numbered in order,
  a model is stored exactly for a run strictly better than all before it, and the best so
  far is the first run of minimal test RMSE.
\<close>

definition search_inv :: "best \<Rightarrow> tune_run list \<Rightarrow> bool" where
  "search_inv b runs =
     ((\<forall>j<length runs. run_index (runs ! j) = j)
      \<and> (\<forall>j<length runs. model_logged (runs ! j) = (\<forall>k<j. test_rmse runs j < test_rmse runs k))
      \<and> (case b of
            None \<Rightarrow> runs = []
          | Some (r, i, hp) \<Rightarrow>
              i < length runs \<and> r = test_rmse runs i \<and> hp = tuned_hp (runs ! i)
              \<and> (\<forall>j<length runs. r \<le> test_rmse runs j) \<and> (\<forall>j<i. r < test_rmse runs j)))"

text \<open>
  Run \<open>x\<close> is the run of the configuration \<open>vals\<close>: its hyperparameters are those built
  from \<open>vals\<close>, its metrics are the backend's on the held-out test partition.
\<close>

definition run_of :: "params \<Rightarrow> backend \<Rightarrow> row list \<Rightarrow> row list \<Rightarrow> real list \<Rightarrow> tune_run \<Rightarrow> bool" where
  "run_of p be X_train X_test vals x =
     (tune_hp p grid_keys vals = Inr (tuned_hp x)
      \<and> be ''gradient_boosting'' (tuned_hp x) X_train X_test = Inr (tune_metrics x)
      \<and> tune_tag x = tune_status (tune_metrics x) (thresholds p))"

text \<open>The model family \<^verbatim>\<open>model_type or params["model"]["type"]\<close> of \<^verbatim>\<open>train_model\<close>.\<close>

definition chosen_type :: "params \<Rightarrow> string option \<Rightarrow> string" where
  "chosen_type p mtype_arg =
     (case mtype_arg of None \<Rightarrow> model_type p | Some t \<Rightarrow> if t = [] then model_type p else t)"

text \<open>The folds of the walk-forward split of \<open>n\<close> samples: the train indices end where the
  test block of \<open>n div (k + 1)\<close> indices starts.\<close>

definition expanding_folds :: "nat \<Rightarrow> nat \<Rightarrow> (nat list \<times> nat list) list" where
  "expanding_folds k n =
     map (\<lambda>i. ([0..<n - k * (n div (k + 1)) + i * (n div (k + 1))],
               [n - k * (n div (k + 1)) + i * (n div (k + 1))
                ..<n - k * (n div (k + 1)) + i * (n div (k + 1)) + n div (k + 1)]))
       [0..<k]"

text \<open>Fold \<open>fd\<close> of \<open>X\<close> was fitted and scored by \<open>fe\<close> with the metrics \<open>m\<close>.\<close>

definition fold_scored ::
    "(row list \<Rightarrow> row list \<Rightarrow> error + metrics) \<Rightarrow> row list \<Rightarrow> nat list \<times> nat list \<Rightarrow> metrics \<Rightarrow> bool" where
  "fold_scored fe X fd m = (fe (iloc_idx X (fst fd)) (iloc_idx X (snd fd)) = Inr m)"

section \<open>Example inputs\<close>

text \<open>
  A small configuration (its test size is the float \<^verbatim>\<open>0.2\<close>), a backend with fixed metrics,
  and datasets of consecutive dates.
\<close>

definition demo_rows :: "nat \<Rightarrow> row list" where
  "demo_rows n = map (\<lambda>i. \<lparr>date = int i, features = [], target = 0\<rparr>) [0..<n]"

definition demo_params :: params where
  "demo_params =
     \<lparr>data = [''gold_v1'' \<mapsto> ''data/gold/gold_v1.csv'', ''gold_v2'' \<mapsto> ''data/gold/gold_v2.csv''],
      model_type = ''linear_regression'',
      model_hp = [''random_state'' \<mapsto> 42, ''subsample'' \<mapsto> 1, ''min_samples_leaf'' \<mapsto> 1],
      test_size = round64 (1 / 5),
      thresholds = \<lparr>rmse_acceptable = 2, mae_acceptable = 1, r2_minimum = 1 / 2\<rparr>,
      tuning = [''n_estimators'' \<mapsto> [50, 100], ''max_depth'' \<mapsto> [3, 5],
                ''learning_rate'' \<mapsto> [1 / 10], ''min_samples_split'' \<mapsto> [2]]\<rparr>"

definition demo_backend :: backend where
  "demo_backend mtype hp train held =
     Inr \<lparr>rmse = (case map_of hp ''max_depth'' of None \<Rightarrow> 1 | Some d \<Rightarrow> d), mae = 1, r2 = 9 / 10\<rparr>"

definition demo_file :: "string \<Rightarrow> gold_file" where
  "demo_file name = \<lparr>fname = name, content = name, modified = 0, nbytes = length name\<rparr>"

definition demo_world :: "string list \<Rightarrow> (string \<rightharpoonup> row list) \<Rightarrow> run list option \<Rightarrow> world" where
  "demo_world names fs reg =
     \<lparr>config = demo_params, gold_dir = map demo_file names, state_file = None, datasets = fs,
      registry = reg, engine = demo_backend, hexdigest = id\<rparr>"

definition demo_run :: "string \<Rightarrow> real \<Rightarrow> kpi_status \<Rightarrow> run" where
  "demo_run v r tag =
     \<lparr>run_name = ''linear_regression_'' @ v, data_version = v, n_train_samples = 8,
      n_test_samples = 2, logged_params = [],
      train_metrics = \<lparr>rmse = 1, mae = 1, r2 = 9 / 10\<rparr>,
      test_metrics = \<lparr>rmse = r, mae = 1, r2 = 9 / 10\<rparr>,
      cv_metrics = (let m = \<lparr>rmse = 1, mae = 1, r2 = 9 / 10\<rparr> in cv_results [m, m, m, m, m]),
      kpi_tag = tag\<rparr>"

text \<open>A prior state: one stale hash, one equal hash with other time and size, one file since removed.\<close>

definition demo_prior :: data_state where
  "demo_prior =
     [(''gold_v1.csv'', \<lparr>path = ''data/gold/gold_v1.csv'', md5 = ''stale'', mtime = 0, fsize = 11\<rparr>),
      (''gold_v2.csv'', \<lparr>path = ''data/gold/gold_v2.csv'', md5 = ''gold_v2.csv'', mtime = 7, fsize = 99\<rparr>),
      (''gone.csv'', \<lparr>path = ''data/gold/gone.csv'', md5 = ''gone.csv'', mtime = 0, fsize = 8\<rparr>)]"

text \<open>The runs of the example search; the example backend reports \<^verbatim>\<open>max_depth\<close> as RMSE.\<close>

definition demo_tune_run :: "nat \<Rightarrow> real \<Rightarrow> real \<Rightarrow> bool \<Rightarrow> tune_run" where
  "demo_tune_run i n_est depth stored =
     \<lparr>run_index = i,
      tuned_hp = [(''n_estimators'', n_est), (''max_depth'', depth), (''learning_rate'', 1 / 10),
                  (''min_samples_split'', 2), (''random_state'', 42), (''subsample'', 1),
                  (''min_samples_leaf'', 1)],
      cv_rmse_mean = np_mean [depth, depth, depth],
      cv_rmse_std = np_std [depth, depth, depth],
      tune_metrics = \<lparr>rmse = depth, mae = 1, r2 = 9 / 10\<rparr>,
      tune_tag = FAIL,
      model_logged = stored\<rparr>"

text \<open>
  A backend whose MAE breaches its threshold while RMSE and R2 are acceptable, and the runs
  it leads to.
\<close>

definition breach_backend :: backend where
  "breach_backend mtype hp train held = Inr \<lparr>rmse = 1, mae = 100, r2 = 9 / 10\<rparr>"

definition breach_run :: run where
  "breach_run =
     (let m = \<lparr>rmse = 1, mae = 100, r2 = 9 / 10\<rparr>
      in \<lparr>run_name = ''linear_regression_v1'', data_version = ''v1'', n_train_samples = 8,
          n_test_samples = 2, logged_params = [], train_metrics = m, test_metrics = m,
          cv_metrics = cv_results [m, m, m, m, m], kpi_tag = PASS\<rparr>)"

definition breach_tune_run :: "nat \<Rightarrow> real \<Rightarrow> real \<Rightarrow> bool \<Rightarrow> tune_run" where
  "breach_tune_run i n_est depth stored =
     \<lparr>run_index = i,
      tuned_hp = [(''n_estimators'', n_est), (''max_depth'', depth), (''learning_rate'', 1 / 10),
                  (''min_samples_split'', 2), (''random_state'', 42), (''subsample'', 1),
                  (''min_samples_leaf'', 1)],
      cv_rmse_mean = np_mean [1, 1, 1],
      cv_rmse_std = np_std [1, 1, 1],
      tune_metrics = \<lparr>rmse = 1, mae = 100, r2 = 9 / 10\<rparr>,
      tune_tag = PASS,
      model_logged = stored\<rparr>"

section \<open>KPI gate\<close>

text \<open>The two gate functions agree and do not read the MAE.\<close>

lemma gate_helpers:
  "(train_status tm th = PASS) = (rmse tm < rmse_acceptable th \<and> r2_minimum th < r2 tm)"
  "(tune_status tm th = PASS) = (rmse tm < rmse_acceptable th \<and> r2_minimum th < r2 tm)"
  "train_status (tm\<lparr>mae := m\<rparr>) (th\<lparr>mae_acceptable := a\<rparr>) = train_status tm th"
  "tune_status (tm\<lparr>mae := m\<rparr>) (th\<lparr>mae_acceptable := a\<rparr>) = tune_status tm th"
  by (simp_all add: train_status_def tune_status_def rmse_ok_def r2_ok_def passes_def)

section \<open>The retraining loop\<close>

lemma retrain_all_ok:
  "\<forall>v\<in>set vs. \<exists>r. tm v = Inr r \<Longrightarrow>
   retrain tm cb lg vs = (lg @ map (decided tm cb) vs, None)"
  by (induction vs arbitrary: lg) (auto simp: decided_def)

lemma retrain_first_failure:
  "\<forall>v\<in>set pre. \<exists>r. tm v = Inr r \<Longrightarrow> tm v = Inl e \<Longrightarrow>
   retrain tm cb lg (pre @ v # post) = (lg @ map (decided tm cb) pre @ [(v, Inl e)], Some e)"
  by (induction pre arbitrary: lg) (auto simp: decided_def)

lemma retrain_cases:
  "(\<forall>v\<in>set vs. \<exists>r. tm v = Inr r) \<or>
   (\<exists>pre v post e. vs = pre @ v # post \<and> (\<forall>u\<in>set pre. \<exists>r. tm u = Inr r) \<and> tm v = Inl e)"
proof (induction vs)
  case Nil
  then show ?case by simp
next
  case (Cons a vs)
  show ?case
  proof (cases "tm a")
    case (Inl e)
    then have "a # vs = [] @ a # vs \<and> (\<forall>u\<in>set []. \<exists>r. tm u = Inr r) \<and> tm a = Inl e" by simp
    then show ?thesis by blast
  next
    case (Inr r)
    from Cons.IH show ?thesis
    proof
      assume "\<forall>v\<in>set vs. \<exists>r. tm v = Inr r"
      with Inr show ?thesis by auto
    next
      assume "\<exists>pre v post e. vs = pre @ v # post \<and> (\<forall>u\<in>set pre. \<exists>r. tm u = Inr r) \<and> tm v = Inl e"
      then obtain pre v post e where h: "vs = pre @ v # post" "\<forall>u\<in>set pre. \<exists>r. tm u = Inr r" "tm v = Inl e"
        by blast
      with Inr have "a # vs = (a # pre) @ v # post \<and> (\<forall>u\<in>set (a # pre). \<exists>r. tm u = Inr r) \<and> tm v = Inl e"
        by simp
      then show ?thesis by blast
    qed
  qed
qed

lemma versions_to_train_filter:
  "versions_to_train names =
     map (\<lambda>n. if contains ''v1'' n then ''v1'' else ''v2'')
       (filter (\<lambda>n. contains ''v1'' n \<or> contains ''v2'' n) names)"
  by (induction names) auto

lemma versions_to_train_empty:
  "(versions_to_train names = []) = (\<forall>n\<in>set names. \<not> contains ''v1'' n \<and> \<not> contains ''v2'' n)"
  by (induction names) auto

lemma detect_new_data_state:
  "detect_new_data h dir sf = (n, m, c) \<Longrightarrow> c = get_data_state h dir"
  by (auto simp: detect_new_data_def Let_def split: prod.splits)

lemma update_pipeline_unfold:
  "update_pipeline w =
     (if all_changed w = [] then \<lparr>attempts = [], state_after = state_file w, status = UpToDate\<rparr>
      else if versions_to_train (all_changed w) = []
      then \<lparr>attempts = [], state_after = state_file w, status = NoVersion\<rparr>
      else (case retrain (train_version w) (get_current_best_model (registry w)) []
                   (versions_to_train (all_changed w)) of
              (tried, Some e) \<Rightarrow> \<lparr>attempts = tried, state_after = state_file w, status = Failed e\<rparr>
            | (tried, None) \<Rightarrow>
                \<lparr>attempts = tried,
                 state_after = Some (get_data_state (hexdigest w) (gold_dir w)),
                 status = Complete\<rparr>))"
proof -
  obtain n m c where d: "detect_new_data (hexdigest w) (gold_dir w) (state_file w) = (n, m, c)"
    by (cases "detect_new_data (hexdigest w) (gold_dir w) (state_file w)") auto
  have c: "c = get_data_state (hexdigest w) (gold_dir w)"
    using d by (rule detect_new_data_state)
  have tv: "(\<lambda>v. train_model (config w) (datasets w) (engine w) v None None) = train_version w"
    by (simp add: train_version_def fun_eq_iff)
  show ?thesis
    unfolding update_pipeline_def all_changed_def d tv
    by (simp add: Let_def c save_state_def)
qed

lemma pipeline_all_ok:
  assumes "all_changed w \<noteq> []" "versions_to_train (all_changed w) \<noteq> []"
      and "\<forall>v\<in>set (versions_to_train (all_changed w)). \<exists>r. train_version w v = Inr r"
  shows "update_pipeline w =
     \<lparr>attempts = map (decided (train_version w) (get_current_best_model (registry w)))
                  (versions_to_train (all_changed w)),
      state_after = Some (get_data_state (hexdigest w) (gold_dir w)),
      status = Complete\<rparr>"
  using assms by (simp add: update_pipeline_unfold retrain_all_ok)

lemma pipeline_first_failure:
  assumes "versions_to_train (all_changed w) = pre @ v # post"
      and "\<forall>u\<in>set pre. \<exists>r. train_version w u = Inr r" and "train_version w v = Inl e"
  shows "update_pipeline w =
     \<lparr>attempts = map (decided (train_version w) (get_current_best_model (registry w))) pre @ [(v, Inl e)],
      state_after = state_file w,
      status = Failed e\<rparr>"
proof -
  have "all_changed w \<noteq> []" using assms(1) by (cases "all_changed w") auto
  then show ?thesis using assms by (simp add: update_pipeline_unfold retrain_first_failure)
qed

section \<open>Evaluation of the example inputs\<close>

lemmas pipeline_defs =
  detect_new_data_def get_data_state_def endswith_def load_last_state_def detect_step_def
  get_current_best_model_def all_changed_def

lemma bit_length_numeral:
  "bit_length (numeral k) = Suc (bit_length (numeral k div 2))"
  "bit_length 0 = 0" "bit_length 1 = 1" "bit_length (Suc 0) = 1"
  by (simp_all add: bit_length.simps [of "numeral k"] bit_length.simps [of 0]
        bit_length.simps [of 1] bit_length.simps [of "Suc 0"])

lemmas float_defs =
  round64_def ilog2_def round_half_even_def bit_length_numeral float_of_int_def fsub_def fmul_def
  power_int_minus

lemmas train_defs =
  train_version_def train_model_def getitem_def load_gold_data_def temporal_train_test_split_def
  float_defs py_int_def iloc_to_def iloc_from_def select_model_def cross_validate_timeseries_def
  time_series_split_def py_range_def iloc_idx_def train_status_def rmse_ok_def r2_ok_def

lemmas demo_defs = demo_world_def demo_params_def demo_backend_def demo_file_def demo_rows_def

lemma demo_train_v1:
  "train_version (demo_world names [''data/gold/gold_v1.csv'' \<mapsto> demo_rows 10] reg) ''v1''
     = Inr (demo_run ''v1'' 1 PASS)"
  by (simp add: train_defs demo_defs demo_run_def upt_rec Let_def)

lemma demo_train_v2:
  "train_version (demo_world names [''data/gold/gold_v2.csv'' \<mapsto> demo_rows 10] reg) ''v2''
     = Inr (demo_run ''v2'' 1 PASS)"
  by (simp add: train_defs demo_defs demo_run_def upt_rec Let_def)

lemma demo_train_missing:
  "train_version (demo_world names [''data/gold/gold_v2.csv'' \<mapsto> demo_rows 10] reg) ''v1''
     = Inl (SystemExit 1)"
  by (simp add: train_defs demo_defs)

lemma demo_changed_notes:
  "all_changed (demo_world [''notes.csv'', ''gold_v1.csv''] fs reg) = [''gold_v1.csv'', ''notes.csv'']"
  by (simp add: pipeline_defs demo_defs)

lemma demo_changed_both:
  "all_changed (demo_world [''gold_v1.csv'', ''gold_v2.csv''] fs reg) = [''gold_v1.csv'', ''gold_v2.csv'']"
  by (simp add: pipeline_defs demo_defs)

lemma demo_changed_none:
  "all_changed (demo_world [''notes.csv''] fs reg) = [''notes.csv'']"
  by (simp add: pipeline_defs demo_defs)

lemma demo_changed_v1:
  "all_changed (demo_world [''gold_v1.csv''] fs reg) = [''gold_v1.csv'']"
  by (simp add: pipeline_defs demo_defs)

lemma pipeline_attempt_ok:
  assumes "(v, Inr (r, d)) \<in> set (attempts (update_pipeline w))"
  shows "train_version w v = Inr r \<and> d = compare_with_best (get_current_best_model (registry w)) r
         \<and> v \<in> set (versions_to_train (all_changed w))"
proof -
  let ?vs = "versions_to_train (all_changed w)"
  let ?dec = "decided (train_version w) (get_current_best_model (registry w))"
  have ne: "all_changed w \<noteq> [] \<and> ?vs \<noteq> []"
    using assms by (auto simp: update_pipeline_unfold split: if_splits)
  have dec: "(v, Inr (r, d)) \<in> set (map ?dec us) \<Longrightarrow>
      train_version w v = Inr r \<and> d = compare_with_best (get_current_best_model (registry w)) r \<and> v \<in> set us"
    for us by (auto simp: decided_def split: sum.splits)
  from retrain_cases [of ?vs "train_version w"] show ?thesis
  proof
    assume ok: "\<forall>v\<in>set ?vs. \<exists>r. train_version w v = Inr r"
    have "attempts (update_pipeline w) = map ?dec ?vs"
      using ne ok by (simp add: pipeline_all_ok)
    with assms dec show ?thesis by simp
  next
    assume "\<exists>pre v post e. ?vs = pre @ v # post \<and> (\<forall>u\<in>set pre. \<exists>r. train_version w u = Inr r)
              \<and> train_version w v = Inl e"
    then obtain pre u post e where h: "?vs = pre @ u # post"
        "\<forall>x\<in>set pre. \<exists>r. train_version w x = Inr r" "train_version w u = Inl e" by blast
    have "attempts (update_pipeline w) = map ?dec pre @ [(u, Inl e)]"
      using h by (simp add: pipeline_first_failure)
    with assms have "(v, Inr (r, d)) \<in> set (map ?dec pre)" by auto
    with dec [of pre] h(1) show ?thesis by auto
  qed
qed

section \<open>Promotion decision\<close>

text \<open>
  C1 (amended). For every version the pipeline retrains while an incumbent exists (the PASS
  run of lowest test RMSE in the registry), with delta = candidate test RMSE minus incumbent
  test RMSE, the decision is PROMOTE exactly when delta < 0 and HOLD exactly when
  delta \<ge> 0; the KPI tag of the candidate is not consulted, so a candidate tagged FAIL
  gets the same decision as one tagged PASS.
\<close>

theorem promotion_by_strict_improvement:
  assumes "get_current_best_model (registry w) = Some inc"
      and "(v, Inr (cand, d)) \<in> set (attempts (update_pipeline w))"
  shows "(d = PROMOTE) = (rmse (test_metrics cand) - rmse (test_metrics inc) < 0)
       \<and> (d = HOLD) = (0 \<le> rmse (test_metrics cand) - rmse (test_metrics inc))
       \<and> compare_with_best (Some inc) (cand\<lparr>kpi_tag := tag\<rparr>) = d"
proof -
  have "d = compare_with_best (Some inc) cand"
    using pipeline_attempt_ok [OF assms(2)] assms(1) by simp
  then show ?thesis by (auto simp: compare_with_best_def Let_def)
qed

lemma demo_pipeline_v1:
  "update_pipeline (demo_world [''gold_v1.csv''] [''data/gold/gold_v1.csv'' \<mapsto> demo_rows 10] reg) =
     \<lparr>attempts = [(''v1'', Inr (demo_run ''v1'' 1 PASS,
                      compare_with_best (get_current_best_model reg) (demo_run ''v1'' 1 PASS)))],
      state_after = Some [(''gold_v1.csv'',
         \<lparr>path = ''data/gold/gold_v1.csv'', md5 = ''gold_v1.csv'', mtime = 0, fsize = 11\<rparr>)],
      status = Complete\<rparr>"
proof -
  let ?w = "demo_world [''gold_v1.csv''] [''data/gold/gold_v1.csv'' \<mapsto> demo_rows 10] reg"
  have s: "get_data_state (hexdigest ?w) (gold_dir ?w) = [(''gold_v1.csv'',
         \<lparr>path = ''data/gold/gold_v1.csv'', md5 = ''gold_v1.csv'', mtime = 0, fsize = 11\<rparr>)]"
    by (simp add: get_data_state_def endswith_def demo_defs)
  have r: "registry ?w = reg" by (simp add: demo_world_def)
  show ?thesis
    by (simp add: update_pipeline_unfold demo_changed_v1 demo_train_v1 s r)
qed

theorem promotion_by_strict_improvement_witness:
  "get_current_best_model
      (registry (demo_world [''gold_v1.csv''] [''data/gold/gold_v1.csv'' \<mapsto> demo_rows 10]
         (Some [demo_run ''v1'' 2 PASS]))) = Some (demo_run ''v1'' 2 PASS)
   \<and> (''v1'', Inr (demo_run ''v1'' 1 PASS, PROMOTE)) \<in> set (attempts (update_pipeline
        (demo_world [''gold_v1.csv''] [''data/gold/gold_v1.csv'' \<mapsto> demo_rows 10]
           (Some [demo_run ''v1'' 2 PASS]))))
   \<and> rmse (test_metrics (demo_run ''v1'' 1 PASS)) - rmse (test_metrics (demo_run ''v1'' 2 PASS)) < 0"
proof -
  let ?w = "demo_world [''gold_v1.csv''] [''data/gold/gold_v1.csv'' \<mapsto> demo_rows 10]
           (Some [demo_run ''v1'' 2 PASS])"
  have g: "get_current_best_model (Some [demo_run ''v1'' 2 PASS]) = Some (demo_run ''v1'' 2 PASS)"
    by (simp add: get_current_best_model_def demo_run_def)
  have r: "registry ?w = Some [demo_run ''v1'' 2 PASS]"
    by (simp add: demo_world_def)
  have a: "get_current_best_model (registry ?w) = Some (demo_run ''v1'' 2 PASS)"
    using g r by simp
  have c: "compare_with_best (Some (demo_run ''v1'' 2 PASS)) (demo_run ''v1'' 1 PASS) = PROMOTE"
    by (simp add: compare_with_best_def demo_run_def)
  have b: "(''v1'', Inr (demo_run ''v1'' 1 PASS, PROMOTE)) \<in> set (attempts (update_pipeline ?w))"
    by (simp add: demo_pipeline_v1 g c)
  from promotion_by_strict_improvement [OF a b] a b show ?thesis by simp
qed

text \<open>
  The claim as stated fails twice: at delta = 0 the decision is HOLD, and a candidate tagged
  FAIL with a lower test RMSE is promoted.
\<close>

theorem promotion_tie_and_fail_counterexample:
  "compare_with_best (get_current_best_model (Some [demo_run ''v1'' 2 PASS])) (demo_run ''v1'' 2 PASS) = HOLD
   \<and> compare_with_best (get_current_best_model (Some [demo_run ''v1'' 2 PASS]))
        (demo_run ''v1'' (9 / 5) FAIL) = PROMOTE"
  by (simp add: compare_with_best_def get_current_best_model_def demo_run_def)

section \<open>State commit and failures\<close>

lemma pipeline_status_cases:
  "status (update_pipeline w) = UpToDate \<or> status (update_pipeline w) = NoVersion
   \<or> status (update_pipeline w) = Complete \<or> (\<exists>e. status (update_pipeline w) = Failed e)"
  by (cases "status (update_pipeline w)") auto

lemma pipeline_complete_iff:
  "(status (update_pipeline w) = Complete) =
     (versions_to_train (all_changed w) \<noteq> [] \<and>
      (\<forall>v\<in>set (versions_to_train (all_changed w)). \<exists>r. train_version w v = Inr r))"
proof -
  let ?vs = "versions_to_train (all_changed w)"
  have ne: "?vs \<noteq> [] \<Longrightarrow> all_changed w \<noteq> []" by auto
  from retrain_cases [of ?vs "train_version w"] show ?thesis
  proof
    assume ok: "\<forall>v\<in>set ?vs. \<exists>r. train_version w v = Inr r"
    then show ?thesis
      by (cases "?vs = []") (auto simp: update_pipeline_unfold retrain_all_ok)
  next
    assume "\<exists>pre v post e. ?vs = pre @ v # post \<and> (\<forall>u\<in>set pre. \<exists>r. train_version w u = Inr r)
              \<and> train_version w v = Inl e"
    then obtain pre u post e where h: "?vs = pre @ u # post"
        "\<forall>x\<in>set pre. \<exists>r. train_version w x = Inr r" "train_version w u = Inl e" by blast
    have "status (update_pipeline w) = Failed e"
      using h by (simp add: pipeline_first_failure)
    moreover have "\<not> (\<forall>v\<in>set ?vs. \<exists>r. train_version w v = Inr r)"
      using h(1,3) by auto
    ultimately show ?thesis by simp
  qed
qed

lemma pipeline_not_complete_state:
  "status (update_pipeline w) \<noteq> Complete \<Longrightarrow> state_after (update_pipeline w) = state_file w"
  by (auto simp: update_pipeline_unfold split: if_splits prod.splits option.splits)

text \<open>
  C4. The state file is rewritten only when the run is complete: then every version of the
  cycle, in order, has been trained by \<^verbatim>\<open>train_model\<close> without an error and has its
  comparison with the incumbent in the log, and the state written is the snapshot taken at
  the start of the cycle. In every other outcome the state file is left as it was; in
  particular, when \<^verbatim>\<open>train_model\<close> fails on some version of the cycle, nothing is committed.
\<close>

theorem commit_only_after_all_versions:
  "(status (update_pipeline w) = Complete \<longrightarrow>
      state_after (update_pipeline w) = save_state (get_data_state (hexdigest w) (gold_dir w))
      \<and> map fst (attempts (update_pipeline w)) = versions_to_train (all_changed w)
      \<and> (\<forall>a\<in>set (attempts (update_pipeline w)).
            \<exists>r. train_version w (fst a) = Inr r
               \<and> snd a = Inr (r, compare_with_best (get_current_best_model (registry w)) r)))
   \<and> (status (update_pipeline w) \<noteq> Complete \<longrightarrow> state_after (update_pipeline w) = state_file w)
   \<and> ((\<exists>v\<in>set (versions_to_train (all_changed w)). \<exists>e. train_version w v = Inl e) \<longrightarrow>
        status (update_pipeline w) \<noteq> Complete)"
proof (intro conjI impI)
  assume c: "status (update_pipeline w) = Complete"
  then have ne: "versions_to_train (all_changed w) \<noteq> []" "all_changed w \<noteq> []"
    and ok: "\<forall>v\<in>set (versions_to_train (all_changed w)). \<exists>r. train_version w v = Inr r"
    by (auto simp: pipeline_complete_iff)
  note u = pipeline_all_ok [OF ne(2) ne(1) ok]
  show "state_after (update_pipeline w) = save_state (get_data_state (hexdigest w) (gold_dir w))"
    by (simp add: u save_state_def)
  show "map fst (attempts (update_pipeline w)) = versions_to_train (all_changed w)"
    by (simp add: u decided_def comp_def)
  show "\<forall>a\<in>set (attempts (update_pipeline w)).
            \<exists>r. train_version w (fst a) = Inr r
               \<and> snd a = Inr (r, compare_with_best (get_current_best_model (registry w)) r)"
    using ok by (auto simp: u decided_def)
next
  assume "status (update_pipeline w) \<noteq> Complete"
  then show "state_after (update_pipeline w) = state_file w"
    by (rule pipeline_not_complete_state)
next
  assume "\<exists>v\<in>set (versions_to_train (all_changed w)). \<exists>e. train_version w v = Inl e"
  then obtain v e where "v \<in> set (versions_to_train (all_changed w))" "train_version w v = Inl e"
    by blast
  then have "\<not> (\<forall>v\<in>set (versions_to_train (all_changed w)). \<exists>r. train_version w v = Inr r)"
    by fastforce
  then show "status (update_pipeline w) \<noteq> Complete"
    by (simp add: pipeline_complete_iff)
qed

lemma demo_pipeline_missing_v1:
  "update_pipeline (demo_world [''gold_v1.csv'', ''gold_v2.csv''] [''data/gold/gold_v2.csv'' \<mapsto> demo_rows 10] reg) =
     \<lparr>attempts = [(''v1'', Inl (SystemExit 1))], state_after = None, status = Failed (SystemExit 1)\<rparr>"
proof -
  let ?w = "demo_world [''gold_v1.csv'', ''gold_v2.csv''] [''data/gold/gold_v2.csv'' \<mapsto> demo_rows 10] reg"
  have v: "versions_to_train (all_changed ?w) = [] @ ''v1'' # [''v2'']"
    by (simp add: demo_changed_both)
  have s: "state_file ?w = None" by (simp add: demo_world_def)
  show ?thesis
    using pipeline_first_failure [OF v _ demo_train_missing] s by simp
qed

theorem commit_only_after_all_versions_witness:
  "status (update_pipeline (demo_world [''gold_v1.csv''] [''data/gold/gold_v1.csv'' \<mapsto> demo_rows 10] None)) = Complete
   \<and> state_after (update_pipeline (demo_world [''gold_v1.csv''] [''data/gold/gold_v1.csv'' \<mapsto> demo_rows 10] None))
       = save_state (get_data_state id [demo_file ''gold_v1.csv''])
   \<and> train_version (demo_world [''gold_v1.csv'', ''gold_v2.csv''] [''data/gold/gold_v2.csv'' \<mapsto> demo_rows 10] None) ''v1''
       = Inl (SystemExit 1)
   \<and> status (update_pipeline (demo_world [''gold_v1.csv'', ''gold_v2.csv''] [''data/gold/gold_v2.csv'' \<mapsto> demo_rows 10] None))
       \<noteq> Complete
   \<and> state_after (update_pipeline (demo_world [''gold_v1.csv'', ''gold_v2.csv''] [''data/gold/gold_v2.csv'' \<mapsto> demo_rows 10] None))
       = state_file (demo_world [''gold_v1.csv'', ''gold_v2.csv''] [''data/gold/gold_v2.csv'' \<mapsto> demo_rows 10] None)"
proof -
  let ?ok = "demo_world [''gold_v1.csv''] [''data/gold/gold_v1.csv'' \<mapsto> demo_rows 10] None"
  let ?bad = "demo_world [''gold_v1.csv'', ''gold_v2.csv''] [''data/gold/gold_v2.csv'' \<mapsto> demo_rows 10] None"
  have a: "status (update_pipeline ?ok) = Complete" by (simp add: demo_pipeline_v1)
  have b: "status (update_pipeline ?bad) \<noteq> Complete" by (simp add: demo_pipeline_missing_v1)
  have g: "hexdigest ?ok = id" "gold_dir ?ok = [demo_file ''gold_v1.csv'']" by (simp_all add: demo_world_def)
  from commit_only_after_all_versions [of ?ok] commit_only_after_all_versions [of ?bad] a b g
  show ?thesis by (simp add: demo_train_missing)
qed

lemma train_version_missing_dataset:
  "data (config w) (''gold_'' @ v) = Some p \<Longrightarrow> datasets w p = None \<Longrightarrow>
   train_version w v = Inl (SystemExit 1)"
  by (simp add: train_version_def train_model_def getitem_def)

text \<open>
  C7 (amended). A missing dataset for one version ends the whole cycle: \<^verbatim>\<open>train_model\<close>
  leaves through \<^verbatim>\<open>sys.exit(1)\<close>, the versions after it are not attempted, and no state
  is committed.
\<close>

theorem data_access_error_ends_cycle:
  assumes "versions_to_train (all_changed w) = pre @ v # post"
      and "\<forall>u\<in>set pre. \<exists>r. train_version w u = Inr r"
      and "data (config w) (''gold_'' @ v) = Some p" and "datasets w p = None"
  shows "train_version w v = Inl (SystemExit 1)
       \<and> map fst (attempts (update_pipeline w)) = pre @ [v]
       \<and> status (update_pipeline w) = Failed (SystemExit 1)
       \<and> state_after (update_pipeline w) = state_file w"
proof -
  have f: "train_version w v = Inl (SystemExit 1)"
    using assms(3,4) by (rule train_version_missing_dataset)
  show ?thesis
    by (simp add: f pipeline_first_failure [OF assms(1,2) f] decided_def comp_def)
qed

theorem data_access_error_ends_cycle_witness:
  "versions_to_train (all_changed (demo_world [''gold_v1.csv'', ''gold_v2.csv'']
       [''data/gold/gold_v2.csv'' \<mapsto> demo_rows 10] None)) = [] @ ''v1'' # [''v2'']
   \<and> data (config (demo_world [''gold_v1.csv'', ''gold_v2.csv'']
       [''data/gold/gold_v2.csv'' \<mapsto> demo_rows 10] None)) (''gold_'' @ ''v1'') = Some ''data/gold/gold_v1.csv''
   \<and> datasets (demo_world [''gold_v1.csv'', ''gold_v2.csv'']
       [''data/gold/gold_v2.csv'' \<mapsto> demo_rows 10] None) ''data/gold/gold_v1.csv'' = None
   \<and> map fst (attempts (update_pipeline (demo_world [''gold_v1.csv'', ''gold_v2.csv'']
       [''data/gold/gold_v2.csv'' \<mapsto> demo_rows 10] None))) = [''v1'']
   \<and> status (update_pipeline (demo_world [''gold_v1.csv'', ''gold_v2.csv'']
       [''data/gold/gold_v2.csv'' \<mapsto> demo_rows 10] None)) = Failed (SystemExit 1)"
proof -
  let ?w = "demo_world [''gold_v1.csv'', ''gold_v2.csv''] [''data/gold/gold_v2.csv'' \<mapsto> demo_rows 10] None"
  have v: "versions_to_train (all_changed ?w) = [] @ ''v1'' # [''v2'']"
    by (simp add: demo_changed_both)
  have e: "\<forall>u\<in>set []. \<exists>r. train_version ?w u = Inr r" by simp
  have p: "data (config ?w) (''gold_'' @ ''v1'') = Some ''data/gold/gold_v1.csv''"
    by (simp add: demo_world_def demo_params_def)
  have d: "datasets ?w ''data/gold/gold_v1.csv'' = None"
    by (simp add: demo_world_def)
  from data_access_error_ends_cycle [OF v e p d] v p d show ?thesis by simp
qed

text \<open>
  The claim as stated fails: with \<^verbatim>\<open>gold_v1.csv\<close> and \<^verbatim>\<open>gold_v2.csv\<close> changed and the dataset
  of v1 missing, v2 (which would train) is never attempted.
\<close>

theorem later_version_not_attempted_counterexample:
  "versions_to_train (all_changed (demo_world [''gold_v1.csv'', ''gold_v2.csv'']
       [''data/gold/gold_v2.csv'' \<mapsto> demo_rows 10] None)) = [''v1'', ''v2'']
   \<and> train_version (demo_world [''gold_v1.csv'', ''gold_v2.csv'']
       [''data/gold/gold_v2.csv'' \<mapsto> demo_rows 10] None) ''v1'' = Inl (SystemExit 1)
   \<and> train_version (demo_world [''gold_v1.csv'', ''gold_v2.csv'']
       [''data/gold/gold_v2.csv'' \<mapsto> demo_rows 10] None) ''v2'' = Inr (demo_run ''v2'' 1 PASS)
   \<and> attempts (update_pipeline (demo_world [''gold_v1.csv'', ''gold_v2.csv'']
       [''data/gold/gold_v2.csv'' \<mapsto> demo_rows 10] None)) = [(''v1'', Inl (SystemExit 1))]
   \<and> state_after (update_pipeline (demo_world [''gold_v1.csv'', ''gold_v2.csv'']
       [''data/gold/gold_v2.csv'' \<mapsto> demo_rows 10] None)) = None"
  by (simp add: demo_changed_both demo_train_missing demo_train_v2 demo_pipeline_missing_v1)

lemma pipeline_no_version_iff:
  "(status (update_pipeline w) = NoVersion) =
     (all_changed w \<noteq> [] \<and> versions_to_train (all_changed w) = [])"
  by (auto simp: update_pipeline_unfold split: if_splits prod.splits option.splits)

text \<open>
  C3 (amended). Version resolution gives each changed filename the first marker it contains
  (v1 before v2) and skips a filename that contains neither; the pipeline stops before any
  training, with the state file untouched, exactly when files changed and none of their
  names contains a marker.
\<close>

theorem version_resolution_first_marker:
  "versions_to_train names =
      map (\<lambda>n. if contains ''v1'' n then ''v1'' else ''v2'')
        (filter (\<lambda>n. contains ''v1'' n \<or> contains ''v2'' n) names)
   \<and> (status (update_pipeline w) = NoVersion) =
       (all_changed w \<noteq> [] \<and> (\<forall>n\<in>set (all_changed w). \<not> contains ''v1'' n \<and> \<not> contains ''v2'' n))
   \<and> (status (update_pipeline w) = NoVersion \<longrightarrow>
        attempts (update_pipeline w) = [] \<and> state_after (update_pipeline w) = state_file w)"
proof (intro conjI impI)
  show "versions_to_train names =
      map (\<lambda>n. if contains ''v1'' n then ''v1'' else ''v2'')
        (filter (\<lambda>n. contains ''v1'' n \<or> contains ''v2'' n) names)"
    by (rule versions_to_train_filter)
  show "(status (update_pipeline w) = NoVersion) =
       (all_changed w \<noteq> [] \<and> (\<forall>n\<in>set (all_changed w). \<not> contains ''v1'' n \<and> \<not> contains ''v2'' n))"
    by (simp add: pipeline_no_version_iff versions_to_train_empty)
next
  assume "status (update_pipeline w) = NoVersion"
  then have "all_changed w \<noteq> []" "versions_to_train (all_changed w) = []"
    by (simp_all add: pipeline_no_version_iff)
  then show "attempts (update_pipeline w) = []" "state_after (update_pipeline w) = state_file w"
    by (simp_all add: update_pipeline_unfold)
qed

theorem version_resolution_first_marker_witness:
  "all_changed (demo_world [''notes.csv''] Map.empty None) = [''notes.csv'']
   \<and> status (update_pipeline (demo_world [''notes.csv''] Map.empty None)) = NoVersion
   \<and> attempts (update_pipeline (demo_world [''notes.csv''] Map.empty None)) = []
   \<and> state_after (update_pipeline (demo_world [''notes.csv''] Map.empty None))
       = state_file (demo_world [''notes.csv''] Map.empty None)
   \<and> versions_to_train [''gold_v2.csv'', ''notes.csv'', ''gold_v1.csv''] = [''v2'', ''v1'']"
proof -
  let ?w = "demo_world [''notes.csv''] Map.empty None"
  have c: "all_changed ?w = [''notes.csv'']" by (rule demo_changed_none)
  have n: "\<forall>n\<in>set (all_changed ?w). \<not> contains ''v1'' n \<and> \<not> contains ''v2'' n"
    by (simp add: c)
  from version_resolution_first_marker [of "[''gold_v2.csv'', ''notes.csv'', ''gold_v1.csv'']" ?w] c n
  show ?thesis by simp
qed

text \<open>
  The claim as stated fails: a name with both markers resolves to v1, and with
  \<^verbatim>\<open>notes.csv\<close> (no marker) changed beside \<^verbatim>\<open>gold_v1.csv\<close> the pipeline trains v1 and
  commits a state that holds \<^verbatim>\<open>notes.csv\<close>.
\<close>

theorem unresolved_file_trained_counterexample:
  "versions_to_train [''gold_v1_v2.csv''] = [''v1'']
   \<and> all_changed (demo_world [''notes.csv'', ''gold_v1.csv''] [''data/gold/gold_v1.csv'' \<mapsto> demo_rows 10] None)
       = [''gold_v1.csv'', ''notes.csv'']
   \<and> contains ''v1'' ''notes.csv'' = False \<and> contains ''v2'' ''notes.csv'' = False
   \<and> status (update_pipeline (demo_world [''notes.csv'', ''gold_v1.csv'']
        [''data/gold/gold_v1.csv'' \<mapsto> demo_rows 10] None)) = Complete
   \<and> map fst (attempts (update_pipeline (demo_world [''notes.csv'', ''gold_v1.csv'']
        [''data/gold/gold_v1.csv'' \<mapsto> demo_rows 10] None))) = [''v1'']
   \<and> state_after (update_pipeline (demo_world [''notes.csv'', ''gold_v1.csv'']
        [''data/gold/gold_v1.csv'' \<mapsto> demo_rows 10] None))
       = Some [(''gold_v1.csv'',
                 \<lparr>path = ''data/gold/gold_v1.csv'', md5 = ''gold_v1.csv'', mtime = 0, fsize = 11\<rparr>),
               (''notes.csv'',
                 \<lparr>path = ''data/gold/notes.csv'', md5 = ''notes.csv'', mtime = 0, fsize = 9\<rparr>)]"
proof -
  let ?w = "demo_world [''notes.csv'', ''gold_v1.csv''] [''data/gold/gold_v1.csv'' \<mapsto> demo_rows 10] None"
  have c: "all_changed ?w = [''gold_v1.csv'', ''notes.csv'']" by (rule demo_changed_notes)
  have s: "get_data_state (hexdigest ?w) (gold_dir ?w) =
      [(''gold_v1.csv'', \<lparr>path = ''data/gold/gold_v1.csv'', md5 = ''gold_v1.csv'', mtime = 0, fsize = 11\<rparr>),
       (''notes.csv'', \<lparr>path = ''data/gold/notes.csv'', md5 = ''notes.csv'', mtime = 0, fsize = 9\<rparr>)]"
    by (simp add: get_data_state_def endswith_def demo_defs)
  have u: "update_pipeline ?w =
     \<lparr>attempts = map (decided (train_version ?w) (get_current_best_model (registry ?w))) [''v1''],
      state_after = Some (get_data_state (hexdigest ?w) (gold_dir ?w)), status = Complete\<rparr>"
    using pipeline_all_ok [of ?w] by (simp add: c demo_train_v1)
  show ?thesis by (simp add: u c s decided_def)
qed

section \<open>Temporal split\<close>

lemma round_half_even_nonneg: "0 \<le> x \<Longrightarrow> 0 \<le> round_half_even x"
  by (simp add: round_half_even_def Let_def)

lemma round64_nonneg: "0 \<le> x \<Longrightarrow> 0 \<le> round64 x"
proof (cases "x = 0")
  case True
  then show ?thesis by (simp add: round64_def)
next
  case False
  assume "0 \<le> x"
  with False have pos: "0 < x" by simp
  define e where "e = max (ilog2 \<bar>x\<bar> - 52) (- 1074)"
  have p: "(0::real) < 2 powi e" by simp
  then have "0 \<le> \<bar>x\<bar> / 2 powi e" by simp
  then have "0 \<le> round_half_even (\<bar>x\<bar> / 2 powi e)" by (rule round_half_even_nonneg)
  then have "0 \<le> sgn x * of_int (round_half_even (\<bar>x\<bar> / 2 powi e)) * 2 powi e"
    using pos p by simp
  then show ?thesis using False by (simp add: round64_def Let_def e_def)
qed

lemma bit_length_upper: "n < 2 ^ bit_length n"
proof (induction n rule: bit_length.induct)
  case (1 n)
  show ?case
  proof (cases "n = 0")
    case True
    then show ?thesis by (simp add: bit_length.simps [of 0])
  next
    case False
    then have ih: "n div 2 < 2 ^ bit_length (n div 2)" using 1 by simp
    have "n < 2 * (n div 2 + 1)" by simp
    also have "\<dots> \<le> 2 * 2 ^ bit_length (n div 2)" using ih by simp
    finally show ?thesis using False by (simp add: bit_length.simps [of n])
  qed
qed

lemma bit_length_lower: "0 < n \<Longrightarrow> 2 ^ (bit_length n - 1) \<le> n"
proof (induction n rule: bit_length.induct)
  case (1 n)
  then have n: "n \<noteq> 0" by simp
  show ?case
  proof (cases "n div 2 = 0")
    case True
    then show ?thesis using n
      by (simp add: bit_length.simps [of n] bit_length.simps [of 0])
  next
    case False
    then have ih: "2 ^ (bit_length (n div 2) - 1) \<le> n div 2" using 1 n by simp
    have pos: "0 < bit_length (n div 2)"
      using False by (simp add: bit_length.simps [of "n div 2"])
    have "bit_length n - 1 = Suc (bit_length (n div 2) - 1)"
      using n pos by (simp add: bit_length.simps [of n])
    then have "(2::nat) ^ (bit_length n - 1) = 2 * 2 ^ (bit_length (n div 2) - 1)" by simp
    also have "\<dots> \<le> 2 * (n div 2)" using ih by simp
    also have "\<dots> \<le> n" by simp
    finally show ?thesis .
  qed
qed

lemma ilog2_lower:
  assumes "0 < x"
  shows "2 powi (ilog2 x) \<le> x"
proof (cases "1 \<le> x")
  case True
  define m where "m = nat \<lfloor>x\<rfloor>"
  have m: "0 < m" "real m \<le> x" using True by (simp_all add: m_def)
  have b: "0 < bit_length m" using m(1) by (simp add: bit_length.simps [of m])
  have "ilog2 x = int (bit_length m - 1)" using True b by (simp add: ilog2_def m_def)
  then have "2 powi (ilog2 x) = (2::real) ^ (bit_length m - 1)" by simp
  also have "\<dots> = real (2 ^ (bit_length m - 1))" by simp
  also have "\<dots> \<le> real m" using bit_length_lower [OF m(1)] by (simp only: of_nat_le_iff)
  finally show ?thesis using m(2) by simp
next
  case False
  define m where "m = nat (\<lceil>1 / x\<rceil> - 1)"
  have inv: "1 < 1 / x" using assms False by simp
  then have c: "2 \<le> \<lceil>1 / x\<rceil>" by linarith
  have "0 \<le> \<lceil>1 / x\<rceil> - 1" using c by linarith
  then have mi: "int m = \<lceil>1 / x\<rceil> - 1" unfolding m_def by (rule nat_0_le)
  have "1 / x \<le> of_int \<lceil>1 / x\<rceil>" by simp
  also have "\<dots> = real_of_int (int m + 1)" unfolding mi by simp
  also have "\<dots> = real m + 1" by simp
  also have "\<dots> \<le> 2 ^ bit_length m"
  proof -
    have "m + 1 \<le> 2 ^ bit_length m" using bit_length_upper [of m] by simp
    then have "real (m + 1) \<le> real (2 ^ bit_length m)" by (simp only: of_nat_le_iff)
    then show ?thesis by simp
  qed
  finally have "1 / x \<le> 2 ^ bit_length m" .
  then have "1 \<le> x * 2 ^ bit_length m" using assms by (simp add: field_simps)
  then have "1 / 2 ^ bit_length m \<le> x" by (simp add: field_simps)
  moreover have "ilog2 x = - int (bit_length m)" using False by (simp add: ilog2_def m_def)
  ultimately show ?thesis by (simp add: power_int_minus field_simps)
qed

lemma round_half_even_of_int: "round_half_even (of_int k) = k"
  by (simp add: round_half_even_def)

lemma round_half_even_le:
  assumes "x \<le> of_int K"
  shows "round_half_even x \<le> K"
proof -
  have "round_half_even x \<le> \<lceil>x\<rceil>"
    by (auto simp: round_half_even_def Let_def) linarith+
  also have "\<dots> \<le> K" using assms by (simp add: ceiling_le_iff)
  finally show ?thesis .
qed


lemma round64_pos:
  assumes "0 < x"
  shows "round64 x = of_int (round_half_even (x / 2 powi (max (ilog2 x - 52) (- 1074))))
                       * 2 powi (max (ilog2 x - 52) (- 1074))"
  using assms by (simp add: round64_def Let_def)

lemma powi_neg_nat: "(2::real) powi (- int k) = 1 / 2 ^ k"
  by (simp add: power_int_minus field_simps)

lemma ilog2_53:
  assumes "0 < x" "x \<le> 2 ^ 53" "53 \<le> ilog2 x"
  shows "x = 2 ^ 53" and "ilog2 x = 53"
proof -
  define j where "j = nat (ilog2 x)"
  have j: "ilog2 x = int j" "53 \<le> j" using assms(3) by (simp_all add: j_def)
  have "(2::real) ^ j \<le> x" using ilog2_lower [OF assms(1)] j(1) by simp
  then have le: "(2::real) ^ j \<le> 2 ^ 53" using assms(2) by linarith
  then have "j \<le> 53" by (simp only: power_increasing_iff [of 2])
  then have "j = 53" using j(2) by simp
  then show "ilog2 x = 53" using j(1) by simp
  have "(2::real) ^ 53 \<le> x" using \<open>(2::real) ^ j \<le> x\<close> \<open>j = 53\<close> by simp
  then show "x = 2 ^ 53" using assms(2) by simp
qed

lemma round64_le_int:
  assumes "0 < x" "x \<le> of_int M" "M \<le> 2 ^ 53"
  shows "round64 x \<le> of_int M"
proof -
  define E where "E = max (ilog2 x - 52) (- 1074)"
  have r: "round64 x = of_int (round_half_even (x / 2 powi E)) * 2 powi E"
    using round64_pos [OF assms(1)] by (simp add: E_def)
  show ?thesis
  proof (cases "E \<le> 0")
    case True
    define k where "k = nat (- E)"
    have E: "E = - int k" using True by (simp add: k_def)
    have p: "(2::real) powi E = 1 / 2 ^ k" unfolding E by (rule powi_neg_nat)
    have "x / 2 powi E = x * 2 ^ k" by (simp add: p)
    also have "\<dots> \<le> of_int M * 2 ^ k" using assms(2) by simp
    also have "\<dots> = of_int (M * 2 ^ k)" by simp
    finally have "round_half_even (x / 2 powi E) \<le> M * 2 ^ k" by (rule round_half_even_le)
    then have "real_of_int (round_half_even (x / 2 powi E)) \<le> of_int (M * 2 ^ k)"
      by (simp only: of_int_le_iff)
    then have "of_int (round_half_even (x / 2 powi E)) * (1 / 2 ^ k) \<le> of_int (M * 2 ^ k) * (1 / 2 ^ k :: real)"
      by (intro mult_right_mono) simp_all
    then show ?thesis unfolding r p by simp
  next
    case False
    then have e: "E = ilog2 x - 52" "53 \<le> ilog2 x" by (simp_all add: E_def max_def split: if_splits)
    have x53: "x \<le> 2 ^ 53"
    proof -
      have "real_of_int M \<le> of_int (2 ^ 53)" using assms(3) by (simp only: of_int_le_iff)
      then show ?thesis using assms(2) by simp
    qed
    note v = ilog2_53 [OF assms(1) x53 e(2)]
    have E1: "E = 1" using e(1) v(2) by simp
    have "x / 2 powi E = of_int (2 ^ 52)" unfolding E1 v(1) by simp
    then have h: "round_half_even (x / 2 powi E) = 2 ^ 52" by (simp only: round_half_even_of_int)
    have "round64 x = of_int (round_half_even (x / 2 powi E)) * 2 powi E" by (rule r)
    also have "\<dots> = of_int (2 ^ 52) * 2 powi 1" using h unfolding E1 by simp
    also have "\<dots> = 2 ^ 53" by simp
    finally have "round64 x = x" using v(1) by simp
    then show ?thesis using assms(2) by simp
  qed
qed

lemma round64_of_nat:
  assumes "n \<le> 2 ^ 53"
  shows "round64 (real n) = real n"
proof (cases "n = 0")
  case True
  then show ?thesis by (simp add: round64_def)
next
  case False
  then have pos: "0 < real n" by simp
  define E where "E = max (ilog2 (real n) - 52) (- 1074)"
  have r: "round64 (real n) = of_int (round_half_even (real n / 2 powi E)) * 2 powi E"
    using round64_pos [OF pos] by (simp add: E_def)
  have n53: "real n \<le> 2 ^ 53"
  proof -
    have "real n \<le> real (2 ^ 53)" using assms by (simp only: of_nat_le_iff)
    then show ?thesis by simp
  qed
  show ?thesis
  proof (cases "E \<le> 0")
    case True
    define k where "k = nat (- E)"
    have E: "E = - int k" using True by (simp add: k_def)
    have p: "(2::real) powi E = 1 / 2 ^ k" unfolding E by (rule powi_neg_nat)
    have "real n / 2 powi E = of_int (int n * 2 ^ k)" by (simp add: p)
    then have "round_half_even (real n / 2 powi E) = int n * 2 ^ k"
      by (simp only: round_half_even_of_int)
    then show ?thesis unfolding r p by simp
  next
    case False
    then have e: "E = ilog2 (real n) - 52" "53 \<le> ilog2 (real n)"
      by (simp_all add: E_def max_def split: if_splits)
    note v = ilog2_53 [OF pos n53 e(2)]
    have E1: "E = 1" using e(1) v(2) by simp
    have "real n / 2 powi E = of_int (2 ^ 52)" unfolding E1 v(1) by simp
    then have h: "round_half_even (real n / 2 powi E) = 2 ^ 52" by (simp only: round_half_even_of_int)
    have "round64 (real n) = of_int (round_half_even (real n / 2 powi E)) * 2 powi E" by (rule r)
    also have "\<dots> = of_int (2 ^ 52) * 2 powi 1" using h unfolding E1 by simp
    also have "\<dots> = 2 ^ 53" by simp
    finally show ?thesis using v(1) by simp
  qed
qed

lemma split_index_nonneg:
  assumes "f < 1"
  shows "0 \<le> split_index n f"
proof -
  have "0 \<le> fsub 1 f" using assms by (simp add: fsub_def round64_nonneg)
  moreover have "0 \<le> float_of_int (int n)" by (simp add: float_of_int_def round64_nonneg)
  ultimately have "0 \<le> fmul (float_of_int (int n)) (fsub 1 f)"
    by (simp add: fmul_def round64_nonneg)
  then show ?thesis by (simp add: split_index_def py_int_def)
qed

lemma split_index_le:
  assumes "0 < f" "f < 1" "n \<le> 2 ^ 53"
  shows "split_index n f \<le> int n"
proof -
  define y where "y = fsub 1 f"
  have y0: "0 \<le> y" using assms(2) by (simp add: y_def fsub_def round64_nonneg)
  have "round64 (1 - f) \<le> of_int 1"
    using assms(1,2) by (intro round64_le_int) simp_all
  then have y1: "y \<le> 1" by (simp add: y_def fsub_def)
  have fn: "float_of_int (int n) = real n"
    using round64_of_nat [OF assms(3)] by (simp add: float_of_int_def)
  have "real n * y \<le> real n * 1" using y1 by (intro mult_left_mono) simp_all
  then have le: "real n * y \<le> of_int (int n)" by simp
  have n53: "int n \<le> 2 ^ 53"
  proof -
    have "int n \<le> int (2 ^ 53)" using assms(3) by (simp only: of_nat_le_iff)
    then show ?thesis by simp
  qed
  have "round64 (real n * y) \<le> of_int (int n)"
  proof (cases "real n * y = 0")
    case True
    then show ?thesis by (simp add: round64_def)
  next
    case False
    have "0 \<le> real n * y" using y0 by simp
    with False have "0 < real n * y" by linarith
    then show ?thesis using le n53 by (rule round64_le_int)
  qed
  then have z: "fmul (float_of_int (int n)) (fsub 1 f) \<le> of_int (int n)"
    unfolding fmul_def fn y_def .
  have "0 \<le> round64 (real n * y)" using y0 by (intro round64_nonneg) simp
  then have "0 \<le> fmul (float_of_int (int n)) (fsub 1 f)"
    unfolding fmul_def fn y_def .
  then have "split_index n f = \<lfloor>fmul (float_of_int (int n)) (fsub 1 f)\<rfloor>"
    by (simp add: split_index_def py_int_def)
  also have "\<dots> \<le> int n" using z by (simp only: floor_le_iff)
  finally show ?thesis .
qed

lemma temporal_split_take_drop:
  assumes "f < 1"
  shows "temporal_train_test_split X f =
     (take (nat (split_index (length X) f)) X, drop (nat (split_index (length X) f)) X)"
proof -
  have "\<not> split_index (length X) f < 0" using split_index_nonneg [OF assms, of "length X"] by simp
  then show ?thesis
    by (simp add: temporal_train_test_split_def Let_def iloc_to_def iloc_from_def
          split_index_def [symmetric])
qed

lemma sorted_take_drop_le:
  assumes "sorted (map k xs)" "a \<in> set (take m xs)" "b \<in> set (drop m xs)"
  shows "k a \<le> k b"
proof -
  have "sorted (map k (take m xs) @ map k (drop m xs))"
    using assms(1) by (simp flip: map_append)
  then show ?thesis using assms(2,3) by (auto simp: sorted_append)
qed

lemma load_gold_data_sorted: "sorted (map date (load_gold_data df))"
  by (simp add: load_gold_data_def)

lemma split_index_100: "split_index 100 (round64 (2 / 10)) = 80"
  by (simp add: split_index_def py_int_def float_defs Let_def)

lemma split_index_10: "split_index 10 (round64 (8 / 10)) = 1"
  by (simp add: split_index_def py_int_def float_defs Let_def)

lemma split_index_5: "split_index 5 (round64 (2 / 10)) = 4"
  by (simp add: split_index_def py_int_def float_defs Let_def)

lemma float_fifth: "0 < round64 (2 / 10)" "round64 (2 / 10) < 1"
  by (simp_all add: float_defs Let_def)

lemma float_four_fifths: "0 < round64 (8 / 10)" "round64 (8 / 10) < 1"
  by (simp_all add: float_defs Let_def)

text \<open>
  C5 (amended). For rows sorted by ascending date and a test fraction f with 0 < f < 1, the
  split puts the first k rows into the train partition and the remaining rows into the
  test partition, where k is \<^verbatim>\<open>int(n * (1 - f))\<close> as binary64 arithmetic computes it: the
  difference and the product are each rounded to the nearest float before the truncation.
  For up to 2^53 rows k is at most n, so the train partition has exactly k rows. Every
  train date is at most every test date, and 100 rows with the float 0.2 give 80 train and
  20 test rows. (\<open>load_gold_data\<close> hands over sorted rows.)
\<close>

theorem temporal_split_binary64_index:
  assumes "sorted (map date X)" and "0 < f" and "f < 1"
      and "temporal_train_test_split X f = (X_train, X_test)"
  shows "0 \<le> split_index (length X) f
       \<and> split_index (length X) f = py_int (round64 (round64 (real (length X)) * round64 (1 - f)))
       \<and> X_train = take (nat (split_index (length X) f)) X
       \<and> X_test = drop (nat (split_index (length X) f)) X
       \<and> length X_train = min (length X) (nat (split_index (length X) f))
       \<and> length X_test = length X - length X_train
       \<and> (\<forall>a\<in>set X_train. \<forall>b\<in>set X_test. date a \<le> date b)
       \<and> (length X \<le> 2 ^ 53 \<longrightarrow>
            split_index (length X) f \<le> int (length X)
          \<and> int (length X_train) = split_index (length X) f)
       \<and> (length X = 100 \<and> f = round64 (2 / 10) \<longrightarrow> length X_train = 80 \<and> length X_test = 20)"
proof -
  let ?k = "nat (split_index (length X) f)"
  have tr: "X_train = take ?k X" and te: "X_test = drop ?k X"
    using assms(4) temporal_split_take_drop [OF assms(3), of X] by simp_all
  have c1: "0 \<le> split_index (length X) f" by (rule split_index_nonneg [OF assms(3)])
  have c2: "split_index (length X) f = py_int (round64 (round64 (real (length X)) * round64 (1 - f)))"
    by (simp add: split_index_def fmul_def fsub_def float_of_int_def)
  have c5: "length X_train = min (length X) ?k" using tr by simp
  have c6: "length X_test = length X - length X_train" using te tr by simp
  have c7: "\<forall>a\<in>set X_train. \<forall>b\<in>set X_test. date a \<le> date b"
    using sorted_take_drop_le [OF assms(1)] tr te by blast
  have c8: "length X = 100 \<and> f = round64 (2 / 10) \<longrightarrow> length X_train = 80 \<and> length X_test = 20"
  proof
    assume h: "length X = 100 \<and> f = round64 (2 / 10)"
    then have "?k = 80" using split_index_100 by simp
    then show "length X_train = 80 \<and> length X_test = 20" using c5 c6 h by simp
  qed
  have c9: "length X \<le> 2 ^ 53 \<longrightarrow>
            split_index (length X) f \<le> int (length X)
          \<and> int (length X_train) = split_index (length X) f"
  proof
    assume "length X \<le> 2 ^ 53"
    then have le: "split_index (length X) f \<le> int (length X)"
      using assms(2,3) by (intro split_index_le)
    then have "?k \<le> length X" by simp
    then have "length X_train = ?k" using c5 by simp
    then show "split_index (length X) f \<le> int (length X)
          \<and> int (length X_train) = split_index (length X) f"
      using le c1 by simp
  qed
  from c1 c2 tr te c5 c6 c7 c8 c9 show ?thesis by blast
qed

theorem temporal_split_binary64_index_witness:
  "sorted (map date (load_gold_data (rev (demo_rows 100))))
   \<and> 0 < round64 (2 / 10) \<and> round64 (2 / 10) < 1
   \<and> temporal_train_test_split (load_gold_data (rev (demo_rows 100))) (round64 (2 / 10))
       = (take 80 (load_gold_data (rev (demo_rows 100))), drop 80 (load_gold_data (rev (demo_rows 100))))
   \<and> length (load_gold_data (rev (demo_rows 100))) = 100
   \<and> length (take 80 (load_gold_data (rev (demo_rows 100)))) = 80
   \<and> length (drop 80 (load_gold_data (rev (demo_rows 100)))) = 20"
proof -
  let ?X = "load_gold_data (rev (demo_rows 100))"
  have l: "length ?X = 100" by (simp add: load_gold_data_def demo_rows_def)
  have s: "sorted (map date ?X)" by (rule load_gold_data_sorted)
  have k: "nat (split_index (length ?X) (round64 (2 / 10))) = 80"
    unfolding l using split_index_100 by simp
  have t: "temporal_train_test_split ?X (round64 (2 / 10)) = (take 80 ?X, drop 80 ?X)"
    using temporal_split_take_drop [OF float_fifth(2), of ?X] k by simp
  note u = temporal_split_binary64_index [OF s float_fifth t, THEN conjunct2, THEN conjunct2,
      THEN conjunct2, THEN conjunct2, THEN conjunct2, THEN conjunct2, THEN conjunct2, THEN conjunct2]
  have "length (take 80 ?X) = 80 \<and> length (drop 80 ?X) = 20" using u l by blast
  with s float_fifth t l show ?thesis by blast
qed

text \<open>
  The claim as stated fails. For 10 rows and the float 0.8 the code takes 1 train row where
  floor(10 (1 - 0.8)) is 2; and read with f as the stored float, for 5 rows and the float 0.2
  the code takes 4 train rows where floor(5 (1 - f)) is 3.
\<close>

theorem split_floor_counterexample:
  "sorted (map date (demo_rows 10))
   \<and> temporal_train_test_split (demo_rows 10) (round64 (8 / 10))
       = (take 1 (demo_rows 10), drop 1 (demo_rows 10))
   \<and> \<lfloor>real 10 * (1 - 8 / 10)\<rfloor> = (2::int)
   \<and> temporal_train_test_split (demo_rows 5) (round64 (2 / 10))
       = (take 4 (demo_rows 5), drop 4 (demo_rows 5))
   \<and> \<lfloor>real 5 * (1 - round64 (2 / 10))\<rfloor> = (3::int)"
proof -
  have a: "sorted (map date (demo_rows 10))"
    by (simp add: demo_rows_def upt_rec)
  have l: "length (demo_rows 10) = 10" "length (demo_rows 5) = 5" by (simp_all add: demo_rows_def)
  have b: "temporal_train_test_split (demo_rows 10) (round64 (8 / 10))
       = (take 1 (demo_rows 10), drop 1 (demo_rows 10))"
    using temporal_split_take_drop [OF float_four_fifths(2), of "demo_rows 10"] l split_index_10
    by simp
  have c: "\<lfloor>real 10 * (1 - 8 / 10)\<rfloor> = (2::int)" by simp
  have d: "temporal_train_test_split (demo_rows 5) (round64 (2 / 10))
       = (take 4 (demo_rows 5), drop 4 (demo_rows 5))"
    using temporal_split_take_drop [OF float_fifth(2), of "demo_rows 5"] l split_index_5
    by simp
  have e: "\<lfloor>real 5 * (1 - round64 (2 / 10))\<rfloor> = (3::int)"
    by (simp add: float_defs Let_def)
  from a b c d e show ?thesis by blast
qed

section \<open>Change detection\<close>

lemma get_data_state_foldl:
  "get_data_state digest dir = foldl (state_step digest) [] (sort_key fname dir)"
proof -
  have "state_step digest =
      (\<lambda>state f. if endswith (fname f) ''.csv''
                  then AList.update (fname f)
                         \<lparr>path = ''data/gold/'' @ fname f, md5 = digest (content f),
                          mtime = modified f, fsize = nbytes f\<rparr> state
                  else state)"
    by (intro ext) (simp add: state_step_def snapshot_of_def)
  then show ?thesis by (simp only: get_data_state_def)
qed

lemma state_step_keys:
  "fst ` set (state_step h acc f) =
     fst ` set acc \<union> (if endswith (fname f) ''.csv'' then {fname f} else {})"
  by (simp add: state_step_def AList.dom_update)

lemma state_step_distinct:
  "distinct (map fst acc) \<Longrightarrow> distinct (map fst (state_step h acc f))"
  by (simp add: state_step_def AList.distinct_update)

lemma state_step_lookup:
  "map_of (state_step h acc f) k =
     (if endswith (fname f) ''.csv'' \<and> fname f = k then Some (snapshot_of h f) else map_of acc k)"
  by (auto simp: state_step_def AList.update_conv')

lemma state_foldl_keys:
  "fst ` set (foldl (state_step h) acc fs) =
     fst ` set acc \<union> {fname f |f. f \<in> set fs \<and> endswith (fname f) ''.csv''}"
proof (induction fs arbitrary: acc)
  case Nil
  then show ?case by simp
next
  case (Cons f fs)
  have "fst ` set (foldl (state_step h) acc (f # fs)) =
      fst ` set (state_step h acc f) \<union> {fname f |f. f \<in> set fs \<and> endswith (fname f) ''.csv''}"
    by (simp add: Cons.IH)
  also have "\<dots> = fst ` set acc \<union> {fname g |g. g \<in> set (f # fs) \<and> endswith (fname g) ''.csv''}"
    unfolding state_step_keys by auto
  finally show ?case .
qed

lemma state_foldl_distinct:
  "distinct (map fst acc) \<Longrightarrow> distinct (map fst (foldl (state_step h) acc fs))"
  by (induction fs arbitrary: acc) (simp_all add: state_step_distinct)

lemma state_foldl_other:
  "k \<notin> fname ` set fs \<Longrightarrow> map_of (foldl (state_step h) acc fs) k = map_of acc k"
  by (induction fs arbitrary: acc) (auto simp: state_step_lookup)

lemma state_foldl_lookup:
  assumes "distinct (map fname fs)" "f \<in> set fs" "endswith (fname f) ''.csv''"
  shows "map_of (foldl (state_step h) acc fs) (fname f) = Some (snapshot_of h f)"
  using assms
proof (induction fs arbitrary: acc)
  case Nil
  then show ?case by simp
next
  case (Cons g fs)
  show ?case
  proof (cases "f \<in> set fs")
    case True
    with Cons show ?thesis by simp
  next
    case False
    with Cons.prems have fg: "g = f" by simp
    have "fname f \<notin> fname ` set fs" using Cons.prems(1) fg by auto
    then show ?thesis
      using Cons.prems(3) fg by (simp add: state_foldl_other state_step_lookup)
  qed
qed

lemma get_data_state_keys:
  "fst ` set (get_data_state h dir) = {fname f |f. f \<in> set dir \<and> endswith (fname f) ''.csv''}"
  by (simp add: get_data_state_foldl state_foldl_keys)

lemma get_data_state_distinct: "distinct (map fst (get_data_state h dir))"
  by (simp add: get_data_state_foldl state_foldl_distinct)

lemma get_data_state_lookup:
  assumes "distinct (map fname dir)" "f \<in> set dir" "endswith (fname f) ''.csv''"
  shows "map_of (get_data_state h dir) (fname f) = Some (snapshot_of h f)"
proof -
  have "distinct (map fname (sort_key fname dir))"
    using assms(1) by (metis distinct_map distinct_sort set_sort)
  then show ?thesis
    using assms(2,3) by (simp add: get_data_state_foldl state_foldl_lookup)
qed

lemma detect_foldl:
  "foldl (detect_step prior) (n, m) cs =
     (n @ map fst (filter (\<lambda>(k, i). prior k = None) cs),
      m @ map fst (filter (\<lambda>(k, i). \<exists>old. prior k = Some old \<and> md5 old \<noteq> md5 i) cs))"
  by (induction cs arbitrary: n m) (auto simp: detect_step_def split: option.splits)

lemma detect_new_data_lists:
  "detect_new_data h dir sf =
     (map fst (filter (\<lambda>(k, i). load_last_state sf k = None) (get_data_state h dir)),
      map fst (filter (\<lambda>(k, i). \<exists>old. load_last_state sf k = Some old \<and> md5 old \<noteq> md5 i)
                 (get_data_state h dir)),
      get_data_state h dir)"
  by (simp add: detect_new_data_def Let_def detect_foldl)

lemma mem_keys_filter:
  assumes "distinct (map fst cs)" "(k, i) \<in> set cs"
  shows "(k \<in> set (map fst (filter (\<lambda>(k, i). P k i) cs))) = P k i"
proof
  assume "k \<in> set (map fst (filter (\<lambda>(k, i). P k i) cs))"
  then obtain j where j: "(k, j) \<in> set cs" "P k j" by auto
  have "j = i" using assms j(1) by (meson eq_key_imp_eq_value)
  with j show "P k i" by simp
next
  assume "P k i"
  with assms(2) show "k \<in> set (map fst (filter (\<lambda>(k, i). P k i) cs))" by force
qed

lemma keys_filter_subset:
  "k \<in> set (map fst (filter Q cs)) \<Longrightarrow> k \<in> fst ` set cs"
  by auto

text \<open>
  C6. For the snapshot of the directory and the prior state, a file of the snapshot is
  reported new exactly when its name is absent from the prior state, and modified exactly
  when the prior state has it with a different MD5 digest; with an equal digest it is not
  reported modified, whatever its modification time and size; a name that is not in the
  snapshot (such as a file only the prior state knows) is reported in neither list. The
  digest compared is the hash of the file's content.
\<close>

theorem change_detection_by_content_hash:
  assumes "detect_new_data h dir sf = (new_files, modified_files, current_state)"
  shows "current_state = get_data_state h dir
     \<and> (\<forall>(name, info)\<in>set current_state.
          (name \<in> set new_files) = (load_last_state sf name = None)
        \<and> (name \<in> set modified_files)
            = (\<exists>old. load_last_state sf name = Some old \<and> md5 old \<noteq> md5 info)
        \<and> (\<forall>old. load_last_state sf name = Some old \<and> md5 old = md5 info
              \<longrightarrow> name \<notin> set modified_files))
     \<and> (\<forall>name. name \<notin> fst ` set current_state
          \<longrightarrow> name \<notin> set new_files \<and> name \<notin> set modified_files)
     \<and> (\<forall>f\<in>set dir. distinct (map fname dir) \<and> endswith (fname f) ''.csv''
          \<longrightarrow> (\<exists>info. (fname f, info) \<in> set current_state \<and> md5 info = h (content f)))"
proof -
  let ?prior = "load_last_state sf"
  let ?cs = "get_data_state h dir"
  have cs: "current_state = ?cs"
    and nf: "new_files = map fst (filter (\<lambda>(k, i). ?prior k = None) ?cs)"
    and mf: "modified_files =
        map fst (filter (\<lambda>(k, i). \<exists>old. ?prior k = Some old \<and> md5 old \<noteq> md5 i) ?cs)"
    using assms by (auto simp: detect_new_data_lists)
  have d: "distinct (map fst ?cs)" by (rule get_data_state_distinct)
  have entry: "(name \<in> set new_files) = (?prior name = None)
        \<and> (name \<in> set modified_files) = (\<exists>old. ?prior name = Some old \<and> md5 old \<noteq> md5 info)
        \<and> (\<forall>old. ?prior name = Some old \<and> md5 old = md5 info \<longrightarrow> name \<notin> set modified_files)"
    if "(name, info) \<in> set ?cs" for name info
  proof -
    have a: "(name \<in> set new_files) = (?prior name = None)"
      unfolding nf by (rule mem_keys_filter [OF d that])
    have b: "(name \<in> set modified_files) = (\<exists>old. ?prior name = Some old \<and> md5 old \<noteq> md5 info)"
      unfolding mf by (rule mem_keys_filter [OF d that])
    from a b show ?thesis by auto
  qed
  have absent: "name \<notin> set new_files \<and> name \<notin> set modified_files"
    if "name \<notin> fst ` set ?cs" for name
  proof -
    have "name \<notin> set new_files" using that keys_filter_subset [of name] unfolding nf by blast
    moreover have "name \<notin> set modified_files"
      using that keys_filter_subset [of name] unfolding mf by blast
    ultimately show ?thesis by simp
  qed
  have files: "\<exists>info. (fname f, info) \<in> set ?cs \<and> md5 info = h (content f)"
    if "f \<in> set dir" "distinct (map fname dir)" "endswith (fname f) ''.csv''" for f
  proof -
    have "map_of ?cs (fname f) = Some (snapshot_of h f)"
      using that by (simp add: get_data_state_lookup)
    then have "(fname f, snapshot_of h f) \<in> set ?cs" by (rule map_of_SomeD)
    moreover have "md5 (snapshot_of h f) = h (content f)" by (simp add: snapshot_of_def)
    ultimately show ?thesis by blast
  qed
  show ?thesis
    unfolding cs using entry absent files by (intro conjI ballI allI impI) auto
qed

lemma demo_detect:
  "detect_new_data id (map demo_file [''notes.txt'', ''gold_v3.csv'', ''gold_v2.csv'', ''gold_v1.csv''])
       (Some demo_prior) =
     ([''gold_v3.csv''], [''gold_v1.csv''],
      [(''gold_v1.csv'', \<lparr>path = ''data/gold/gold_v1.csv'', md5 = ''gold_v1.csv'', mtime = 0, fsize = 11\<rparr>),
       (''gold_v2.csv'', \<lparr>path = ''data/gold/gold_v2.csv'', md5 = ''gold_v2.csv'', mtime = 0, fsize = 11\<rparr>),
       (''gold_v3.csv'', \<lparr>path = ''data/gold/gold_v3.csv'', md5 = ''gold_v3.csv'', mtime = 0, fsize = 11\<rparr>)])"
  by (simp add: detect_new_data_def get_data_state_def endswith_def load_last_state_def detect_step_def
        demo_file_def demo_prior_def)

theorem change_detection_by_content_hash_witness:
  "detect_new_data id (map demo_file [''notes.txt'', ''gold_v3.csv'', ''gold_v2.csv'', ''gold_v1.csv''])
       (Some demo_prior) =
     ([''gold_v3.csv''], [''gold_v1.csv''],
      [(''gold_v1.csv'', \<lparr>path = ''data/gold/gold_v1.csv'', md5 = ''gold_v1.csv'', mtime = 0, fsize = 11\<rparr>),
       (''gold_v2.csv'', \<lparr>path = ''data/gold/gold_v2.csv'', md5 = ''gold_v2.csv'', mtime = 0, fsize = 11\<rparr>),
       (''gold_v3.csv'', \<lparr>path = ''data/gold/gold_v3.csv'', md5 = ''gold_v3.csv'', mtime = 0, fsize = 11\<rparr>)])
   \<and> load_last_state (Some demo_prior) ''gold_v3.csv'' = None
   \<and> load_last_state (Some demo_prior) ''gold_v2.csv''
       = Some \<lparr>path = ''data/gold/gold_v2.csv'', md5 = ''gold_v2.csv'', mtime = 7, fsize = 99\<rparr>
   \<and> load_last_state (Some demo_prior) ''gone.csv''
       = Some \<lparr>path = ''data/gold/gone.csv'', md5 = ''gone.csv'', mtime = 0, fsize = 8\<rparr>"
proof -
  note t = change_detection_by_content_hash [OF demo_detect, THEN conjunct2, THEN conjunct2, THEN conjunct1]
  have a: "load_last_state (Some demo_prior) ''gold_v3.csv'' = None"
    by (simp add: load_last_state_def demo_prior_def)
  have b: "load_last_state (Some demo_prior) ''gold_v2.csv''
       = Some \<lparr>path = ''data/gold/gold_v2.csv'', md5 = ''gold_v2.csv'', mtime = 7, fsize = 99\<rparr>"
    by (simp add: load_last_state_def demo_prior_def)
  have c: "load_last_state (Some demo_prior) ''gone.csv''
       = Some \<lparr>path = ''data/gold/gone.csv'', md5 = ''gone.csv'', mtime = 0, fsize = 8\<rparr>"
    by (simp add: load_last_state_def demo_prior_def)
  from t demo_detect a b c show ?thesis by blast
qed

lemma non_csv_not_key:
  "\<not> endswith name ''.csv'' \<Longrightarrow> name \<notin> fst ` set (get_data_state h dir)"
  by (auto simp: get_data_state_keys)

text \<open>
  C10. A name that does not end in \<^verbatim>\<open>.csv\<close> has no snapshot in the computed data state and
  is in neither the new nor the modified list (nor among the remaining, unchanged entries of
  the snapshot), for every directory and prior state; the state a complete pipeline run
  commits has no entry for it.
\<close>

theorem only_csv_files_tracked:
  assumes "\<not> endswith name ''.csv''"
      and "detect_new_data h dir sf = (new_files, modified_files, current_state)"
  shows "map_of (get_data_state h dir) name = None
       \<and> name \<notin> fst ` set current_state
       \<and> name \<notin> set new_files
       \<and> name \<notin> set modified_files
       \<and> name \<notin> set (all_changed w)
       \<and> (status (update_pipeline w) = Complete \<longrightarrow>
            (\<exists>st. state_after (update_pipeline w) = Some st \<and> map_of st name = None))"
proof -
  have k: "name \<notin> fst ` set (get_data_state h' dir')" for h' dir'
    using assms(1) by (rule non_csv_not_key)
  have m: "map_of (get_data_state h' dir') name = None" for h' dir'
    using k [of h' dir'] by (simp add: map_of_eq_None_iff)
  have cs: "current_state = get_data_state h dir"
    and nf: "new_files = map fst (filter (\<lambda>(k, i). load_last_state sf k = None) (get_data_state h dir))"
    and mf: "modified_files =
        map fst (filter (\<lambda>(k, i). \<exists>old. load_last_state sf k = Some old \<and> md5 old \<noteq> md5 i)
                   (get_data_state h dir))"
    using assms(2) by (auto simp: detect_new_data_lists)
  have n1: "name \<notin> set new_files"
    using k [of h dir] keys_filter_subset [of name] unfolding nf by blast
  have n2: "name \<notin> set modified_files"
    using k [of h dir] keys_filter_subset [of name] unfolding mf by blast
  have n3: "name \<notin> set (all_changed w)"
    using k [of "hexdigest w" "gold_dir w"] keys_filter_subset [of name]
    unfolding all_changed_def detect_new_data_lists by auto
  have n4: "status (update_pipeline w) = Complete \<longrightarrow>
            (\<exists>st. state_after (update_pipeline w) = Some st \<and> map_of st name = None)"
    using m [of "hexdigest w" "gold_dir w"]
    by (auto simp: update_pipeline_unfold split: if_splits prod.splits option.splits)
  from m [of h dir] k [of h dir] cs n1 n2 n3 n4 show ?thesis by simp
qed

theorem only_csv_files_tracked_witness:
  "\<not> endswith ''notes.txt'' ''.csv''
   \<and> detect_new_data id (map demo_file [''notes.txt'', ''gold_v3.csv'', ''gold_v2.csv'', ''gold_v1.csv''])
       (Some demo_prior) =
     ([''gold_v3.csv''], [''gold_v1.csv''],
      [(''gold_v1.csv'', \<lparr>path = ''data/gold/gold_v1.csv'', md5 = ''gold_v1.csv'', mtime = 0, fsize = 11\<rparr>),
       (''gold_v2.csv'', \<lparr>path = ''data/gold/gold_v2.csv'', md5 = ''gold_v2.csv'', mtime = 0, fsize = 11\<rparr>),
       (''gold_v3.csv'', \<lparr>path = ''data/gold/gold_v3.csv'', md5 = ''gold_v3.csv'', mtime = 0, fsize = 11\<rparr>)])
   \<and> map_of (get_data_state id (map demo_file [''notes.txt'', ''gold_v3.csv'', ''gold_v2.csv'', ''gold_v1.csv'']))
        ''notes.txt'' = None"
proof -
  have a: "\<not> endswith ''notes.txt'' ''.csv''" by (simp add: endswith_def)
  from only_csv_files_tracked [OF a demo_detect, THEN conjunct1] a demo_detect
  show ?thesis by blast
qed

section \<open>Cross-validation on small datasets\<close>

lemma time_series_split_small:
  "n < k + 1 \<Longrightarrow> time_series_split k n = Inl ValueError"
  by (simp add: time_series_split_def Let_def)

lemma fold_block_bound:
  fixes k n :: nat
  assumes "k + 1 \<le> n"
  shows "0 < n div (k + 1)" and "n div (k + 1) * k < n"
proof -
  define d where "d = n div (k + 1)"
  have "(k + 1) div (k + 1) \<le> n div (k + 1)" using assms by (rule div_le_mono)
  then have p: "0 < d" by (simp add: d_def)
  have "d * (k + 1) \<le> n" unfolding d_def by (rule div_times_less_eq_dividend)
  then have "d * k + d \<le> n" by (simp add: algebra_simps)
  with p have "d * k < n" by linarith
  with p show "0 < n div (k + 1)" and "n div (k + 1) * k < n" by (simp_all add: d_def)
qed

lemma blocks_div:
  fixes k t :: nat
  assumes "0 < t"
  shows "(k * t + t - 1) div t = k"
proof -
  have "k * t + t - 1 = t * k + (t - 1)" using assms by (simp add: mult.commute)
  then have "(k * t + t - 1) div t = (t * k + (t - 1)) div t" by simp
  also have "\<dots> = k + (t - 1) div t" using assms by (simp only: div_mult_self4)
  also have "\<dots> = k" using assms by simp
  finally show ?thesis .
qed

lemma time_series_split_folds:
  assumes "k + 1 \<le> n"
  shows "\<exists>folds. time_series_split k n = Inr folds \<and> length folds = k"
proof -
  define t where "t = n div (k + 1)"
  have t: "0 < t" and lt: "t * k < n" using fold_block_bound [OF assms] by (simp_all add: t_def)
  have "n - (n - k * t) = k * t" using lt by (simp add: mult.commute)
  then have "(n - (n - k * t) + t - 1) div t = k" using blocks_div [OF t] by simp
  then have len: "length (py_range (n - k * t) n t) = k"
    by (simp add: py_range_def)
  have a: "\<not> n < k + 1" using assms by simp
  have b: "\<not> int n - int (t * k) \<le> 0" using lt by linarith
  have "time_series_split k n =
      Inr (map (\<lambda>test_start. ([0..<test_start], [test_start..<test_start + t]))
             (py_range (n - k * t) n t))"
    unfolding time_series_split_def Let_def t_def [symmetric] using a b by simp
  then show ?thesis using len by simp
qed

lemma cv_folds_total:
  assumes "\<And>tr va. \<exists>m. fe tr va = Inr m"
  shows "\<exists>ms. cv_folds fe X folds = Inr ms \<and> length ms = length folds"
proof (induction folds)
  case Nil
  then show ?case by simp
next
  case (Cons fold folds)
  obtain tr va where f: "fold = (tr, va)" by (cases fold)
  obtain m where m: "fe (iloc_idx X tr) (iloc_idx X va) = Inr m" using assms by blast
  from Cons.IH obtain ms where "cv_folds fe X folds = Inr ms" "length ms = length folds" by blast
  then show ?case by (simp add: f m)
qed

lemma cross_validate_small:
  "length X < k + 1 \<Longrightarrow> cross_validate_timeseries fe X k = Inl ValueError"
  by (simp add: cross_validate_timeseries_def time_series_split_small)

lemma cross_validate_total:
  assumes "k + 1 \<le> length X" "0 < k" "\<And>tr va. \<exists>m. fe tr va = Inr m"
  shows "\<exists>ms. length ms = k \<and> cross_validate_timeseries fe X k = Inr (cv_results ms)"
proof -
  obtain folds where f: "time_series_split k (length X) = Inr folds" "length folds = k"
    using time_series_split_folds [OF assms(1)] by blast
  obtain ms where ms: "cv_folds fe X folds = Inr ms" "length ms = length folds"
    using cv_folds_total [of fe X folds] assms(3) by blast
  have "ms \<noteq> []" using ms(2) f(2) assms(2) by auto
  then show ?thesis
    using f ms by (auto simp: cross_validate_timeseries_def split: list.splits)
qed

lemma time_series_split_Inr:
  assumes "time_series_split k n = Inr folds"
  shows "k + 1 \<le> n" and "folds = expanding_folds k n" and "length folds = k"
proof -
  show kn: "k + 1 \<le> n"
    using assms by (auto simp: time_series_split_def Let_def split: if_splits)
  define t where "t = n div (k + 1)"
  have t: "0 < t" and lt: "t * k < n" using fold_block_bound [OF kn] by (simp_all add: t_def)
  have "n - (n - k * t) = k * t" using lt by (simp add: mult.commute)
  then have cnt: "(n - (n - k * t) + t - 1) div t = k" using blocks_div [OF t] by simp
  have a: "\<not> n < k + 1" using kn by simp
  have b: "\<not> int n - int (t * k) \<le> 0" using lt by linarith
  have "time_series_split k n =
      Inr (map (\<lambda>test_start. ([0..<test_start], [test_start..<test_start + t]))
             (py_range (n - k * t) n t))"
    unfolding time_series_split_def Let_def t_def [symmetric] using a b by simp
  then have "folds = map (\<lambda>test_start. ([0..<test_start], [test_start..<test_start + t]))
             (py_range (n - k * t) n t)"
    using assms by simp
  moreover have "py_range (n - k * t) n t = map (\<lambda>i. n - k * t + i * t) [0..<k]"
    unfolding py_range_def cnt ..
  ultimately have "folds = map (\<lambda>i. ([0..<n - k * t + i * t], [n - k * t + i * t..<n - k * t + i * t + t]))
             [0..<k]"
    by (simp only: map_map comp_def)
  then show f: "folds = expanding_folds k n"
    unfolding expanding_folds_def t_def .
  show "length folds = k" unfolding f by (simp add: expanding_folds_def)
qed

lemma cv_folds_Inr:
  "cv_folds fe X folds = Inr ms \<Longrightarrow> list_all2 (fold_scored fe X) folds ms"
proof (induction folds arbitrary: ms)
  case Nil
  then show ?case by simp
next
  case (Cons fd folds)
  obtain tr va where f: "fd = (tr, va)" by (cases fd)
  from Cons.prems f obtain m rest where
    m: "fe (iloc_idx X tr) (iloc_idx X va) = Inr m" and r: "cv_folds fe X folds = Inr rest"
    and ms: "ms = m # rest"
    by (auto split: sum.splits)
  show ?case using Cons.IH [OF r] m ms f by (simp add: fold_scored_def)
qed

lemma cross_validate_Inr:
  assumes "cross_validate_timeseries fe X k = Inr res"
  shows "\<exists>ms. k + 1 \<le> length X \<and> time_series_split k (length X) = Inr (expanding_folds k (length X))
            \<and> length ms = k \<and> list_all2 (fold_scored fe X) (expanding_folds k (length X)) ms
            \<and> res = cv_results ms"
proof -
  from assms obtain folds where f: "time_series_split k (length X) = Inr folds"
    by (auto simp: cross_validate_timeseries_def split: sum.splits)
  from assms f obtain ms where ms: "cv_folds fe X folds = Inr ms" and res: "res = cv_results ms"
    by (auto simp: cross_validate_timeseries_def split: sum.splits list.splits)
  note s = time_series_split_Inr [OF f]
  have a: "list_all2 (fold_scored fe X) folds ms" using ms by (rule cv_folds_Inr)
  then have "length ms = k" using s(3) by (simp add: list_all2_lengthD [symmetric])
  then show ?thesis using s f a res by auto
qed

lemma train_model_unfold:
  assumes "data p (''gold_'' @ v) = Some dpath" and "fs dpath = Some csv"
      and "temporal_train_test_split (load_gold_data csv) (test_size p) = (X_train, X_test)"
  shows "train_model p fs be v mt cp =
     (if X_train = [] \<or> X_test = [] then Inl IndexError
      else (case select_model p (chosen_type p mt) cp of
        Inl e \<Rightarrow> Inl e
      | Inr hp \<Rightarrow>
     (case be (chosen_type p mt) hp X_train X_train of
        Inl e \<Rightarrow> Inl e
      | Inr train_m \<Rightarrow>
     (case be (chosen_type p mt) hp X_train X_test of
        Inl e \<Rightarrow> Inl e
      | Inr test_m \<Rightarrow>
     (case cross_validate_timeseries (be (chosen_type p mt) hp) X_train 5 of
        Inl e \<Rightarrow> Inl e
      | Inr cv \<Rightarrow>
          Inr \<lparr>run_name = chosen_type p mt @ ''_'' @ v,
               data_version = v,
               n_train_samples = length X_train,
               n_test_samples = length X_test,
               logged_params = hp,
               train_metrics = train_m,
               test_metrics = test_m,
               cv_metrics = cv,
               kpi_tag = train_status test_m (thresholds p)\<rparr>)))))"
proof -
  have ct: "(case mt of None \<Rightarrow> model_type p | Some t \<Rightarrow> if t = [] then model_type p else t)
      = chosen_type p mt"
    by (simp add: chosen_type_def)
  show ?thesis
    unfolding train_model_def
    by (simp add: getitem_def assms(1) [simplified] assms(2,3) Let_def ct)
qed

lemma train_model_Inr:
  assumes "train_model p fs be v mt cp = Inr r"
  shows "\<exists>dpath csv hp.
           data p (''gold_'' @ v) = Some dpath \<and> fs dpath = Some csv
         \<and> fst (temporal_train_test_split (load_gold_data csv) (test_size p)) \<noteq> []
         \<and> snd (temporal_train_test_split (load_gold_data csv) (test_size p)) \<noteq> []
         \<and> select_model p (chosen_type p mt) cp = Inr hp
         \<and> be (chosen_type p mt) hp
              (fst (temporal_train_test_split (load_gold_data csv) (test_size p)))
              (fst (temporal_train_test_split (load_gold_data csv) (test_size p))) = Inr (train_metrics r)
         \<and> be (chosen_type p mt) hp
              (fst (temporal_train_test_split (load_gold_data csv) (test_size p)))
              (snd (temporal_train_test_split (load_gold_data csv) (test_size p))) = Inr (test_metrics r)
         \<and> cross_validate_timeseries (be (chosen_type p mt) hp)
              (fst (temporal_train_test_split (load_gold_data csv) (test_size p))) 5 = Inr (cv_metrics r)
         \<and> kpi_tag r = train_status (test_metrics r) (thresholds p)
         \<and> n_train_samples r = length (fst (temporal_train_test_split (load_gold_data csv) (test_size p)))"
proof -
  from assms obtain dpath where d: "data p (''gold_'' @ v) = Some dpath"
    by (auto simp: train_model_def getitem_def split: option.splits)
  from assms d obtain csv where c: "fs dpath = Some csv"
    by (auto simp: train_model_def getitem_def split: option.splits)
  define X_train where "X_train = fst (temporal_train_test_split (load_gold_data csv) (test_size p))"
  define X_test where "X_test = snd (temporal_train_test_split (load_gold_data csv) (test_size p))"
  have sp: "temporal_train_test_split (load_gold_data csv) (test_size p) = (X_train, X_test)"
    by (simp add: X_train_def X_test_def)
  note u = train_model_unfold [where fs = fs and be = be and mt = mt and cp = cp, OF d c sp]
  from assms u have ne: "X_train \<noteq> []" "X_test \<noteq> []" by (auto split: if_splits)
  from assms u ne obtain hp where hp: "select_model p (chosen_type p mt) cp = Inr hp"
    by (auto split: sum.splits)
  from assms u ne hp obtain train_m test_m cv where
    m: "be (chosen_type p mt) hp X_train X_train = Inr train_m"
       "be (chosen_type p mt) hp X_train X_test = Inr test_m"
       "cross_validate_timeseries (be (chosen_type p mt) hp) X_train 5 = Inr cv"
    and r: "r = \<lparr>run_name = chosen_type p mt @ ''_'' @ v,
               data_version = v,
               n_train_samples = length X_train,
               n_test_samples = length X_test,
               logged_params = hp,
               train_metrics = train_m,
               test_metrics = test_m,
               cv_metrics = cv,
               kpi_tag = train_status test_m (thresholds p)\<rparr>"
    by (auto split: sum.splits)
  show ?thesis
    using d c ne hp m unfolding r X_train_def X_test_def by simp
qed

text \<open>
  C9 (amended). Cross-validation always runs the 5 walk-forward folds and is never skipped
  or reduced. On a train partition of fewer than 6 rows the splitter raises ValueError and
  \<^verbatim>\<open>train_model\<close> does not return a run. Every run \<^verbatim>\<open>train_model\<close> returns has at least 6
  train rows and carries the means and deviations over exactly the 5 folds of the split,
  each fitted on the rows before its validation block and scored on that block. On a train
  partition of at least 6 rows, with a non-empty test partition, a known model family and a
  backend that returns metrics, \<^verbatim>\<open>train_model\<close> returns a run.
\<close>

theorem cross_validation_runs_five_folds:
  assumes "data p (''gold_'' @ v) = Some dpath" and "fs dpath = Some csv"
      and "temporal_train_test_split (load_gold_data csv) (test_size p) = (X_train, X_test)"
  shows "(length X_train < 6 \<longrightarrow>
            cross_validate_timeseries fe X_train 5 = Inl ValueError
          \<and> (\<forall>r. train_model p fs be v mt cp \<noteq> Inr r))
       \<and> (\<forall>r. train_model p fs be v mt cp = Inr r \<longrightarrow>
            6 \<le> length X_train
          \<and> (\<exists>hp ms. select_model p (chosen_type p mt) cp = Inr hp
               \<and> time_series_split 5 (length X_train) = Inr (expanding_folds 5 (length X_train))
               \<and> length (expanding_folds 5 (length X_train)) = 5
               \<and> length ms = 5
               \<and> list_all2 (fold_scored (be (chosen_type p mt) hp) X_train)
                    (expanding_folds 5 (length X_train)) ms
               \<and> cv_metrics r = cv_results ms))
       \<and> (6 \<le> length X_train \<and> X_test \<noteq> [] \<and> select_model p (chosen_type p mt) cp = Inr hp'
            \<and> (\<forall>tr va. \<exists>m. be (chosen_type p mt) hp' tr va = Inr m) \<longrightarrow>
            (\<exists>r. train_model p fs be v mt cp = Inr r \<and> n_train_samples r = length X_train))"
proof (intro conjI impI allI)
  note u = train_model_unfold [where fs = fs and be = be and mt = mt and cp = cp, OF assms]
  {
    assume small: "length X_train < 6"
    then have s: "length X_train < 5 + 1" by simp
    show "cross_validate_timeseries fe X_train 5 = Inl ValueError"
      using s by (rule cross_validate_small)
    have cv: "cross_validate_timeseries (be mtype hp) X_train 5 = Inl ValueError" for mtype hp
      using s by (rule cross_validate_small)
    fix r
    show "train_model p fs be v mt cp \<noteq> Inr r"
      unfolding u by (simp add: cv split: sum.splits)
  }
  {
    fix r
    assume r: "train_model p fs be v mt cp = Inr r"
    from train_model_Inr [OF r] assms obtain hp where
      hp: "select_model p (chosen_type p mt) cp = Inr hp"
      and cv: "cross_validate_timeseries (be (chosen_type p mt) hp) X_train 5 = Inr (cv_metrics r)"
      by auto
    from cross_validate_Inr [OF cv] obtain ms where
      ms: "5 + 1 \<le> length X_train"
        "time_series_split 5 (length X_train) = Inr (expanding_folds 5 (length X_train))"
        "length ms = 5"
        "list_all2 (fold_scored (be (chosen_type p mt) hp) X_train) (expanding_folds 5 (length X_train)) ms"
        "cv_metrics r = cv_results ms"
      by blast
    show "6 \<le> length X_train" using ms(1) by simp
    have "length (expanding_folds 5 (length X_train)) = 5" by (simp add: expanding_folds_def)
    then show "\<exists>hp ms. select_model p (chosen_type p mt) cp = Inr hp
               \<and> time_series_split 5 (length X_train) = Inr (expanding_folds 5 (length X_train))
               \<and> length (expanding_folds 5 (length X_train)) = 5
               \<and> length ms = 5
               \<and> list_all2 (fold_scored (be (chosen_type p mt) hp) X_train)
                    (expanding_folds 5 (length X_train)) ms
               \<and> cv_metrics r = cv_results ms"
      using hp ms by blast
  }
  {
    assume h: "6 \<le> length X_train \<and> X_test \<noteq> [] \<and> select_model p (chosen_type p mt) cp = Inr hp'
            \<and> (\<forall>tr va. \<exists>m. be (chosen_type p mt) hp' tr va = Inr m)"
    then have ne: "X_train \<noteq> []" "X_test \<noteq> []" by auto
    from h obtain train_m where a: "be (chosen_type p mt) hp' X_train X_train = Inr train_m" by blast
    from h obtain test_m where b: "be (chosen_type p mt) hp' X_train X_test = Inr test_m" by blast
    have "5 + 1 \<le> length X_train" using h by simp
    moreover have "(0::nat) < 5" by simp
    moreover have "\<And>tr va. \<exists>m. be (chosen_type p mt) hp' tr va = Inr m" using h by blast
    ultimately obtain ms where
      c: "cross_validate_timeseries (be (chosen_type p mt) hp') X_train 5 = Inr (cv_results ms)"
      using cross_validate_total [of 5 X_train "be (chosen_type p mt) hp'"] by blast
    show "\<exists>r. train_model p fs be v mt cp = Inr r \<and> n_train_samples r = length X_train"
      unfolding u using ne h a b c by simp
  }
qed

lemma demo_split_10:
  "temporal_train_test_split (load_gold_data (demo_rows 10)) (test_size demo_params)
     = (take 8 (demo_rows 10), drop 8 (demo_rows 10))"
  by (simp add: train_defs demo_defs upt_rec)

lemma demo_split_5:
  "temporal_train_test_split (load_gold_data (demo_rows 5)) (test_size demo_params)
     = (take 4 (demo_rows 5), drop 4 (demo_rows 5))"
  by (simp add: train_defs demo_defs upt_rec)

theorem cross_validation_runs_five_folds_witness:
  "data demo_params (''gold_'' @ ''v1'') = Some ''data/gold/gold_v1.csv''
   \<and> temporal_train_test_split (load_gold_data (demo_rows 5)) (test_size demo_params)
       = (take 4 (demo_rows 5), drop 4 (demo_rows 5))
   \<and> length (take 4 (demo_rows 5)) < 6
   \<and> cross_validate_timeseries (demo_backend ''linear_regression'' []) (take 4 (demo_rows 5)) 5 = Inl ValueError
   \<and> temporal_train_test_split (load_gold_data (demo_rows 10)) (test_size demo_params)
       = (take 8 (demo_rows 10), drop 8 (demo_rows 10))
   \<and> train_model demo_params [''data/gold/gold_v1.csv'' \<mapsto> demo_rows 10] demo_backend ''v1'' None None
       = Inr (demo_run ''v1'' 1 PASS)
   \<and> 6 \<le> length (take 8 (demo_rows 10))
   \<and> (\<exists>ms. length ms = 5
          \<and> list_all2 (fold_scored (demo_backend (chosen_type demo_params None) []) (take 8 (demo_rows 10)))
               (expanding_folds 5 (length (take 8 (demo_rows 10)))) ms
          \<and> cv_metrics (demo_run ''v1'' 1 PASS) = cv_results ms)
   \<and> drop 8 (demo_rows 10) \<noteq> []
   \<and> (\<exists>r. train_model demo_params [''data/gold/gold_v1.csv'' \<mapsto> demo_rows 10] demo_backend ''v1'' None None = Inr r
          \<and> n_train_samples r = length (take 8 (demo_rows 10)))"
proof -
  have d: "data demo_params (''gold_'' @ ''v1'') = Some ''data/gold/gold_v1.csv''"
    by (simp add: demo_params_def)
  have f5: "[''data/gold/gold_v1.csv'' \<mapsto> demo_rows 5] ''data/gold/gold_v1.csv'' = Some (demo_rows 5)"
    and f10: "[''data/gold/gold_v1.csv'' \<mapsto> demo_rows 10] ''data/gold/gold_v1.csv'' = Some (demo_rows 10)"
    by simp_all
  have l5: "length (take 4 (demo_rows 5)) < 6" by (simp add: demo_rows_def)
  have l10: "6 \<le> length (take 8 (demo_rows 10))" "drop 8 (demo_rows 10) \<noteq> []"
    by (simp_all add: demo_rows_def)
  have sm: "select_model demo_params (chosen_type demo_params None) None = Inr []"
    by (simp add: select_model_def chosen_type_def demo_params_def)
  have be: "\<forall>tr va. \<exists>m. demo_backend (chosen_type demo_params None) [] tr va = Inr m"
    by (simp add: demo_backend_def)
  have t: "train_model demo_params [''data/gold/gold_v1.csv'' \<mapsto> demo_rows 10] demo_backend ''v1'' None None
       = Inr (demo_run ''v1'' 1 PASS)"
    using demo_train_v1 [of "[]" None] by (simp add: train_version_def demo_world_def)
  note small = cross_validation_runs_five_folds
      [where fs = "[''data/gold/gold_v1.csv'' \<mapsto> demo_rows 5]"
         and fe = "demo_backend ''linear_regression'' []" and be = demo_backend and cp = None
         and mt = None and hp' = "[]", OF d f5 demo_split_5, THEN conjunct1]
  note big = cross_validation_runs_five_folds
      [where fs = "[''data/gold/gold_v1.csv'' \<mapsto> demo_rows 10]"
         and fe = "demo_backend ''linear_regression'' []" and be = demo_backend and cp = None
         and mt = None and hp' = "[]", OF d f10 demo_split_10, THEN conjunct2]
  from small l5 have s: "cross_validate_timeseries (demo_backend ''linear_regression'' [])
      (take 4 (demo_rows 5)) 5 = Inl ValueError" by blast
  from big [THEN conjunct1, rule_format, OF t] sm
  have b: "\<exists>ms. length ms = 5
          \<and> list_all2 (fold_scored (demo_backend (chosen_type demo_params None) []) (take 8 (demo_rows 10)))
               (expanding_folds 5 (length (take 8 (demo_rows 10)))) ms
          \<and> cv_metrics (demo_run ''v1'' 1 PASS) = cv_results ms"
    by auto
  from big [THEN conjunct2] l10 sm be
  have c: "\<exists>r. train_model demo_params [''data/gold/gold_v1.csv'' \<mapsto> demo_rows 10] demo_backend ''v1'' None None = Inr r
          \<and> n_train_samples r = length (take 8 (demo_rows 10))" by blast
  from d demo_split_5 l5 s demo_split_10 t l10 b c show ?thesis by blast
qed

text \<open>
  The claim as stated fails: a dataset of 5 rows (4 train rows) ends \<^verbatim>\<open>train_model\<close> with
  ValueError, and one of a single row ends it with IndexError on the empty train partition.
\<close>

theorem small_dataset_crashes_counterexample:
  "temporal_train_test_split (load_gold_data (demo_rows 5)) (test_size demo_params)
       = (take 4 (demo_rows 5), drop 4 (demo_rows 5))
   \<and> length (take 4 (demo_rows 5)) = 4
   \<and> train_model demo_params [''data/gold/gold_v1.csv'' \<mapsto> demo_rows 5] demo_backend ''v1'' None None
       = Inl ValueError
   \<and> train_model demo_params [''data/gold/gold_v1.csv'' \<mapsto> demo_rows 1] demo_backend ''v1'' None None
       = Inl IndexError"
  by (simp add: train_defs demo_defs upt_rec)

section \<open>Hyperparameter search\<close>

lemma search_inv_init: "search_inv None []"
  by (simp add: search_inv_def)

lemma search_inv_SomeD:
  assumes "search_inv (Some (br, i, hp)) runs"
  shows "i < length runs" and "br = test_rmse runs i" and "hp = tuned_hp (runs ! i)"
    and "\<forall>j<length runs. br \<le> test_rmse runs j" and "\<forall>j<i. br < test_rmse runs j"
  using assms unfolding search_inv_def by auto

lemma improves_iff:
  assumes "search_inv b runs"
  shows "improves r b = (\<forall>k<length runs. r < test_rmse runs k)"
proof (cases b)
  case None
  then show ?thesis using assms by (simp add: improves_def search_inv_def)
next
  case (Some t)
  obtain br i hp where t: "t = (br, i, hp)" by (cases t)
  have inv: "search_inv (Some (br, i, hp)) runs" using assms Some t by simp
  note i = search_inv_SomeD(1,2,4) [OF inv]
  have "(r < br) = (\<forall>k<length runs. r < test_rmse runs k)"
  proof
    assume "r < br"
    then show "\<forall>k<length runs. r < test_rmse runs k" using i(3) by fastforce
  next
    assume "\<forall>k<length runs. r < test_rmse runs k"
    then show "r < br" using i(1,2) by simp
  qed
  then show ?thesis using Some t by (simp add: improves_def)
qed

lemma test_rmse_append:
  "test_rmse (runs @ [x]) j =
     (if j < length runs then test_rmse runs j else if j = length runs then rmse (tune_metrics x)
      else test_rmse (runs @ [x]) j)"
  by (simp add: test_rmse_def nth_append)

lemma search_inv_step:
  assumes inv: "search_inv b runs"
      and x: "run_index x = length runs" "model_logged x = improves (rmse (tune_metrics x)) b"
  shows "search_inv (if improves (rmse (tune_metrics x)) b
                     then Some (rmse (tune_metrics x), length runs, tuned_hp x) else b) (runs @ [x])"
proof -
  let ?r = "rmse (tune_metrics x)"
  let ?n = "length runs"
  let ?runs = "runs @ [x]"
  have old: "test_rmse ?runs j = test_rmse runs j" if "j < ?n" for j
    using that by (simp add: test_rmse_def nth_append)
  have new: "test_rmse ?runs ?n = ?r" by (simp add: test_rmse_def)
  have imp: "improves ?r b = (\<forall>k<?n. ?r < test_rmse runs k)"
    using inv by (rule improves_iff)
  have idx: "\<forall>j<length ?runs. run_index (?runs ! j) = j"
    using inv x(1) by (auto simp: search_inv_def nth_append less_Suc_eq)
  have logged: "model_logged (?runs ! j) = (\<forall>k<j. test_rmse ?runs j < test_rmse ?runs k)"
    if "j < length ?runs" for j
  proof (cases "j < ?n")
    case True
    then have "model_logged (?runs ! j) = (\<forall>k<j. test_rmse runs j < test_rmse runs k)"
      using inv by (simp add: search_inv_def nth_append)
    also have "\<dots> = (\<forall>k<j. test_rmse ?runs j < test_rmse ?runs k)"
      using True old by auto
    finally show ?thesis .
  next
    case False
    then have j: "j = ?n" using that by simp
    have "model_logged (?runs ! j) = (\<forall>k<?n. ?r < test_rmse runs k)"
      using j x(2) imp by simp
    also have "\<dots> = (\<forall>k<j. test_rmse ?runs j < test_rmse ?runs k)"
      using j old new by auto
    finally show ?thesis .
  qed
  show ?thesis
  proof (cases "improves ?r b")
    case True
    then have lt: "\<forall>k<?n. ?r < test_rmse runs k" using imp by simp
    have "\<forall>j<length ?runs. ?r \<le> test_rmse ?runs j"
    proof (intro allI impI)
      fix j assume "j < length ?runs"
      then consider "j < ?n" | "j = ?n" by fastforce
      then show "?r \<le> test_rmse ?runs j"
      proof cases
        case 1
        then show ?thesis using lt old by fastforce
      next
        case 2
        then show ?thesis using new by simp
      qed
    qed
    moreover have "\<forall>j<?n. ?r < test_rmse ?runs j" using lt old by simp
    ultimately show ?thesis
      using True idx logged new by (simp add: search_inv_def)
  next
    case False
    then obtain br i hp where b: "b = Some (br, i, hp)"
      by (cases b) (auto simp: improves_def)
    have le: "br \<le> ?r" using False b by (simp add: improves_def)
    have inv': "search_inv (Some (br, i, hp)) runs" using inv b by simp
    note i = search_inv_SomeD [OF inv']
    have a1: "i < length ?runs" using i(1) by simp
    have a2: "br = test_rmse ?runs i" using i(1,2) old by simp
    have a3: "hp = tuned_hp (?runs ! i)" using i(1,3) by (simp add: nth_append)
    have a4: "\<forall>j<length ?runs. br \<le> test_rmse ?runs j"
    proof (intro allI impI)
      fix j assume "j < length ?runs"
      then consider "j < ?n" | "j = ?n" by fastforce
      then show "br \<le> test_rmse ?runs j"
      proof cases
        case 1
        then show ?thesis using i(4) old by fastforce
      next
        case 2
        then show ?thesis using new le by simp
      qed
    qed
    have a5: "\<forall>j<i. br < test_rmse ?runs j" using i(1,5) old by simp
    show ?thesis
      using False b idx logged a1 a2 a3 a4 a5 by (simp add: search_inv_def)
  qed
qed

lemma tune_step_Inr:
  assumes "tune_step p be X_train X_test grid_keys (b, runs) (i, vals) = Inr st"
  shows "\<exists>x. st = (if improves (rmse (tune_metrics x)) b
                    then Some (rmse (tune_metrics x), i, tuned_hp x) else b, runs @ [x])
            \<and> run_index x = i \<and> model_logged x = improves (rmse (tune_metrics x)) b
            \<and> run_of p be X_train X_test vals x"
proof -
  from assms obtain hp test_m cvm cvs where
    h: "tune_hp p grid_keys vals = Inr hp" "be ''gradient_boosting'' hp X_train X_test = Inr test_m"
    and st: "st = (if improves (rmse test_m) b then Some (rmse test_m, i, hp) else b,
        runs @ [\<lparr>run_index = i, tuned_hp = hp, cv_rmse_mean = cvm,
                  cv_rmse_std = cvs, tune_metrics = test_m,
                  tune_tag = tune_status test_m (thresholds p),
                  model_logged = improves (rmse test_m) b\<rparr>])"
    by (auto simp: tune_step_def Let_def split: sum.splits)
  let ?x = "\<lparr>run_index = i, tuned_hp = hp, cv_rmse_mean = cvm,
                  cv_rmse_std = cvs, tune_metrics = test_m,
                  tune_tag = tune_status test_m (thresholds p),
                  model_logged = improves (rmse test_m) b\<rparr>"
  have "st = (if improves (rmse (tune_metrics ?x)) b
                    then Some (rmse (tune_metrics ?x), i, tuned_hp ?x) else b, runs @ [?x])
            \<and> run_index ?x = i \<and> model_logged ?x = improves (rmse (tune_metrics ?x)) b
            \<and> run_of p be X_train X_test vals ?x"
    using h st by (simp add: run_of_def)
  then show ?thesis by blast
qed

lemma tune_loop_inv:
  assumes "tune_loop p be X_train X_test grid_keys (b, runs) (enumerate (length runs) combos) = Inr (b', runs')"
      and "search_inv b runs"
  shows "search_inv b' runs'
       \<and> (\<exists>new. runs' = runs @ new \<and> list_all2 (run_of p be X_train X_test) combos new)"
  using assms
proof (induction combos arbitrary: b runs)
  case Nil
  then show ?case by simp
next
  case (Cons vals combos)
  from Cons.prems(1) obtain st where
    st: "tune_step p be X_train X_test grid_keys (b, runs) (length runs, vals) = Inr st"
    and rest: "tune_loop p be X_train X_test grid_keys st (enumerate (Suc (length runs)) combos) = Inr (b', runs')"
    by (auto split: sum.splits)
  from tune_step_Inr [OF st] obtain x where
    x: "st = (if improves (rmse (tune_metrics x)) b
               then Some (rmse (tune_metrics x), length runs, tuned_hp x) else b, runs @ [x])"
       "run_index x = length runs" "model_logged x = improves (rmse (tune_metrics x)) b"
       "run_of p be X_train X_test vals x"
    by blast
  let ?b = "if improves (rmse (tune_metrics x)) b
            then Some (rmse (tune_metrics x), length runs, tuned_hp x) else b"
  have inv: "search_inv ?b (runs @ [x])"
    using Cons.prems(2) x(2,3) by (rule search_inv_step)
  have loop: "tune_loop p be X_train X_test grid_keys (?b, runs @ [x])
      (enumerate (length (runs @ [x])) combos) = Inr (b', runs')"
    using rest x(1) by simp
  from Cons.IH [OF loop inv] obtain new where
    n: "search_inv b' runs'" "runs' = (runs @ [x]) @ new" "list_all2 (run_of p be X_train X_test) combos new"
    by blast
  have "runs' = runs @ (x # new)" using n(2) by simp
  moreover have "list_all2 (run_of p be X_train X_test) (vals # combos) (x # new)"
    using n(3) x(4) by simp
  ultimately show ?case using n(1) by blast
qed

lemma itertools_product_set:
  "set (itertools_product xss) = {ys. list_all2 (\<lambda>y xs. y \<in> set xs) ys xss}"
proof (induction xss)
  case Nil
  then show ?case by simp
next
  case (Cons xs xss)
  show ?case
  proof (intro set_eqI iffI)
    fix ys assume "ys \<in> set (itertools_product (xs # xss))"
    then obtain x zs where "x \<in> set xs" "zs \<in> set (itertools_product xss)" "ys = x # zs" by auto
    then show "ys \<in> {ys. list_all2 (\<lambda>y xs. y \<in> set xs) ys (xs # xss)}"
      using Cons.IH by simp
  next
    fix ys assume "ys \<in> {ys. list_all2 (\<lambda>y xs. y \<in> set xs) ys (xs # xss)}"
    then obtain x zs where "ys = x # zs" "x \<in> set xs" "list_all2 (\<lambda>y xs. y \<in> set xs) zs xss"
      by (auto simp: list_all2_Cons2)
    then show "ys \<in> set (itertools_product (xs # xss))"
      using Cons.IH by auto
  qed
qed

lemma itertools_product_length:
  "length (itertools_product xss) = prod_list (map length xss)"
proof (induction xss)
  case Nil
  then show ?case by simp
next
  case (Cons xs xss)
  have "length (itertools_product (xs # xss)) =
      sum_list (map (\<lambda>x. length (itertools_product xss)) xs)"
    by (simp add: length_concat comp_def)
  also have "\<dots> = length xs * length (itertools_product xss)"
    by (simp add: sum_list_triv)
  finally show ?case using Cons.IH by simp
qed

lemma tune_loop_total:
  assumes "\<And>st iv. \<exists>st'. tune_step p be X_train X_test keys st iv = Inr st'"
  shows "\<exists>st'. tune_loop p be X_train X_test keys st ivs = Inr st'"
proof (induction ivs arbitrary: st)
  case Nil
  then show ?case by simp
next
  case (Cons iv ivs)
  obtain st1 where "tune_step p be X_train X_test keys st iv = Inr st1" using assms by blast
  then show ?case using Cons.IH [of st1] by simp
qed

lemma tune_step_total:
  assumes "model_hp p ''random_state'' \<noteq> None" "model_hp p ''subsample'' \<noteq> None"
      "model_hp p ''min_samples_leaf'' \<noteq> None"
      and "4 \<le> length X_train"
      and "\<And>hp tr va. \<exists>m. be ''gradient_boosting'' hp tr va = Inr m"
  shows "\<exists>st'. tune_step p be X_train X_test keys st iv = Inr st'"
proof -
  obtain b runs where s: "st = (b, runs)" by (cases st)
  obtain i vals where v: "iv = (i, vals)" by (cases iv)
  obtain hp where hp: "tune_hp p keys vals = Inr hp"
    using assms(1-3) by (auto simp: tune_hp_def getitem_def)
  have "3 + 1 \<le> length X_train" using assms(4) by simp
  then obtain folds where f: "time_series_split 3 (length X_train) = Inr folds"
    using time_series_split_folds [of 3 "length X_train"] by blast
  obtain fms where c: "cv_folds (be ''gradient_boosting'' hp) X_train folds = Inr fms"
    using cv_folds_total [of "be ''gradient_boosting'' hp" X_train folds] assms(5) by blast
  obtain tm where t: "be ''gradient_boosting'' hp X_train X_test = Inr tm" using assms(5) by blast
  show ?thesis by (simp add: tune_step_def s v hp f c t Let_def)
qed

text \<open>
  C8. When \<^verbatim>\<open>tune_model\<close> returns, its runs are the configurations of the full cartesian
  product of the four grid lists, one run each, in the order of \<^verbatim>\<open>itertools.product\<close>; the
  run reported best has the lowest test RMSE and every run before it has a strictly higher
  one, so of tying configurations the first enumerated is kept; and the model is stored for
  exactly the runs strictly better than every run before them. The search returns whenever
  the dataset is there with at least 4 train rows, the grid lists are present and non-empty,
  the three copied model settings are present and the backend returns metrics.
\<close>

theorem grid_search_keeps_first_minimum:
  "(tune_model p fs be v = Inr (best_run_id, runs) \<longrightarrow>
      (\<exists>dpath csv value_lists.
          data p (''gold_'' @ v) = Some dpath \<and> fs dpath = Some csv
        \<and> param_grid (tuning p) grid_keys = Inr value_lists
        \<and> set (itertools_product value_lists) = {vals. list_all2 (\<lambda>x xs. x \<in> set xs) vals value_lists}
        \<and> length runs = prod_list (map length value_lists)
        \<and> list_all2 (run_of p be
              (fst (temporal_train_test_split (load_gold_data csv) (test_size p)))
              (snd (temporal_train_test_split (load_gold_data csv) (test_size p))))
             (itertools_product value_lists) runs)
      \<and> (\<forall>j<length runs. run_index (runs ! j) = j)
      \<and> best_run_id < length runs
      \<and> (\<forall>j<length runs. test_rmse runs best_run_id \<le> test_rmse runs j)
      \<and> (\<forall>j<best_run_id. test_rmse runs best_run_id < test_rmse runs j)
      \<and> (\<forall>j<length runs. model_logged (runs ! j) = (\<forall>k<j. test_rmse runs j < test_rmse runs k)))
   \<and> (data p (''gold_'' @ v) = Some dpath' \<and> fs dpath' = Some csv'
       \<and> 4 \<le> length (fst (temporal_train_test_split (load_gold_data csv') (test_size p)))
       \<and> param_grid (tuning p) grid_keys = Inr value_lists' \<and> [] \<notin> set value_lists'
       \<and> model_hp p ''random_state'' \<noteq> None \<and> model_hp p ''subsample'' \<noteq> None
       \<and> model_hp p ''min_samples_leaf'' \<noteq> None
       \<and> (\<forall>hp tr va. \<exists>m. be ''gradient_boosting'' hp tr va = Inr m) \<longrightarrow>
       (\<exists>b rs. tune_model p fs be v = Inr (b, rs)))"
proof (intro conjI impI)
  assume a: "tune_model p fs be v = Inr (best_run_id, runs)"
  from a obtain dpath where d: "data p (''gold_'' @ v) = Some dpath"
    by (auto simp: tune_model_def getitem_def split: option.splits)
  from a d obtain csv where c: "fs dpath = Some csv"
    by (auto simp: tune_model_def getitem_def split: option.splits)
  define X_train where "X_train = fst (temporal_train_test_split (load_gold_data csv) (test_size p))"
  define X_test where "X_test = snd (temporal_train_test_split (load_gold_data csv) (test_size p))"
  have sp: "temporal_train_test_split (load_gold_data csv) (test_size p) = (X_train, X_test)"
    by (simp add: X_train_def X_test_def)
  from a d c sp obtain value_lists where g: "param_grid (tuning p) grid_keys = Inr value_lists"
    by (auto simp: tune_model_def getitem_def Let_def split: sum.splits)
  from a d c sp g obtain br hp where
    l: "tune_loop p be X_train X_test grid_keys (None, [])
          (enumerate 0 (itertools_product value_lists)) = Inr (Some (br, best_run_id, hp), runs)"
    by (auto simp: tune_model_def getitem_def Let_def split: sum.splits option.splits)
  have l': "tune_loop p be X_train X_test grid_keys (None, [])
          (enumerate (length ([]::tune_run list)) (itertools_product value_lists))
          = Inr (Some (br, best_run_id, hp), runs)"
    using l by simp
  from tune_loop_inv [OF l' search_inv_init]
  have inv: "search_inv (Some (br, best_run_id, hp)) runs"
    and all2: "list_all2 (run_of p be X_train X_test) (itertools_product value_lists) runs"
    by auto
  have len: "length runs = prod_list (map length value_lists)"
    using list_all2_lengthD [OF all2] by (simp add: itertools_product_length)
  show "\<exists>dpath csv value_lists.
          data p (''gold_'' @ v) = Some dpath \<and> fs dpath = Some csv
        \<and> param_grid (tuning p) grid_keys = Inr value_lists
        \<and> set (itertools_product value_lists) = {vals. list_all2 (\<lambda>x xs. x \<in> set xs) vals value_lists}
        \<and> length runs = prod_list (map length value_lists)
        \<and> list_all2 (run_of p be
              (fst (temporal_train_test_split (load_gold_data csv) (test_size p)))
              (snd (temporal_train_test_split (load_gold_data csv) (test_size p))))
             (itertools_product value_lists) runs"
    using d c g len all2 itertools_product_set [of value_lists]
    unfolding X_train_def X_test_def by blast
  show "\<forall>j<length runs. run_index (runs ! j) = j"
    using inv unfolding search_inv_def by blast
  show "\<forall>j<length runs. model_logged (runs ! j) = (\<forall>k<j. test_rmse runs j < test_rmse runs k)"
    using inv unfolding search_inv_def by blast
  note s = search_inv_SomeD [OF inv]
  show "best_run_id < length runs" by (rule s(1))
  show "\<forall>j<length runs. test_rmse runs best_run_id \<le> test_rmse runs j"
    using s(2,4) by simp
  show "\<forall>j<best_run_id. test_rmse runs best_run_id < test_rmse runs j"
    using s(2,5) by simp
next
  assume h: "data p (''gold_'' @ v) = Some dpath' \<and> fs dpath' = Some csv'
       \<and> 4 \<le> length (fst (temporal_train_test_split (load_gold_data csv') (test_size p)))
       \<and> param_grid (tuning p) grid_keys = Inr value_lists' \<and> [] \<notin> set value_lists'
       \<and> model_hp p ''random_state'' \<noteq> None \<and> model_hp p ''subsample'' \<noteq> None
       \<and> model_hp p ''min_samples_leaf'' \<noteq> None
       \<and> (\<forall>hp tr va. \<exists>m. be ''gradient_boosting'' hp tr va = Inr m)"
  define X_train where "X_train = fst (temporal_train_test_split (load_gold_data csv') (test_size p))"
  define X_test where "X_test = snd (temporal_train_test_split (load_gold_data csv') (test_size p))"
  have sp: "temporal_train_test_split (load_gold_data csv') (test_size p) = (X_train, X_test)"
    by (simp add: X_train_def X_test_def)
  have step: "\<exists>st'. tune_step p be X_train X_test grid_keys st iv = Inr st'" for st iv
    using h by (intro tune_step_total) (auto simp: X_train_def)
  obtain b rs where l: "tune_loop p be X_train X_test grid_keys (None, [])
          (enumerate 0 (itertools_product value_lists')) = Inr (b, rs)"
    using tune_loop_total [of p be X_train X_test grid_keys "(None, [])"] step by fastforce
  have l': "tune_loop p be X_train X_test grid_keys (None, [])
          (enumerate (length ([]::tune_run list)) (itertools_product value_lists')) = Inr (b, rs)"
    using l by simp
  from tune_loop_inv [OF l' search_inv_init]
  have inv: "search_inv b rs"
    and all2: "list_all2 (run_of p be X_train X_test) (itertools_product value_lists') rs"
    by auto
  have "prod_list (map length value_lists') \<noteq> 0"
    using h by (auto simp: prod_list_zero_iff)
  then have "rs \<noteq> []"
    using list_all2_lengthD [OF all2] by (auto simp: itertools_product_length)
  then obtain br i hp where b: "b = Some (br, i, hp)"
    using inv by (cases b) (auto simp: search_inv_def)
  show "\<exists>b rs. tune_model p fs be v = Inr (b, rs)"
    using h sp l b by (simp add: tune_model_def getitem_def Let_def)
qed

lemma demo_tune:
  "tune_model demo_params [''data/gold/gold_v1.csv'' \<mapsto> demo_rows 10] demo_backend ''v1'' =
     Inr (0, [demo_tune_run 0 50 3 True, demo_tune_run 1 50 5 False,
              demo_tune_run 2 100 3 False, demo_tune_run 3 100 5 False])"
  by (simp add: tune_model_def tune_step_def tune_hp_def grid_keys_def improves_def tune_status_def
        passes_def demo_tune_run_def train_defs demo_defs upt_rec Let_def)

theorem grid_search_keeps_first_minimum_witness:
  "tune_model demo_params [''data/gold/gold_v1.csv'' \<mapsto> demo_rows 10] demo_backend ''v1'' =
     Inr (0, [demo_tune_run 0 50 3 True, demo_tune_run 1 50 5 False,
              demo_tune_run 2 100 3 False, demo_tune_run 3 100 5 False])
   \<and> test_rmse [demo_tune_run 0 50 3 True, demo_tune_run 1 50 5 False,
                 demo_tune_run 2 100 3 False, demo_tune_run 3 100 5 False] 0 = 3
   \<and> test_rmse [demo_tune_run 0 50 3 True, demo_tune_run 1 50 5 False,
                 demo_tune_run 2 100 3 False, demo_tune_run 3 100 5 False] 2 = 3
   \<and> (0::nat) < length [demo_tune_run 0 50 3 True, demo_tune_run 1 50 5 False,
                 demo_tune_run 2 100 3 False, demo_tune_run 3 100 5 False]
   \<and> param_grid (tuning demo_params) grid_keys = Inr [[50, 100], [3, 5], [1 / 10], [2]]
   \<and> 4 \<le> length (fst (temporal_train_test_split (load_gold_data (demo_rows 10)) (test_size demo_params)))
   \<and> (\<exists>b rs. tune_model demo_params [''data/gold/gold_v1.csv'' \<mapsto> demo_rows 10] demo_backend ''v1''
                = Inr (b, rs))"
proof -
  let ?runs = "[demo_tune_run 0 50 3 True, demo_tune_run 1 50 5 False,
                demo_tune_run 2 100 3 False, demo_tune_run 3 100 5 False]"
  note t = grid_search_keeps_first_minimum
      [where p = demo_params and fs = "[''data/gold/gold_v1.csv'' \<mapsto> demo_rows 10]"
         and be = demo_backend and v = "''v1''" and best_run_id = 0 and runs = ?runs,
       THEN conjunct1, rule_format, OF demo_tune]
  have b: "(0::nat) < length ?runs" using t by blast
  have r0: "test_rmse ?runs 0 = 3" by (simp add: test_rmse_def demo_tune_run_def)
  have r2: "test_rmse ?runs 2 = 3" by (simp add: test_rmse_def demo_tune_run_def)
  have g: "param_grid (tuning demo_params) grid_keys = Inr [[50, 100], [3, 5], [1 / 10], [2]]"
    by (simp add: demo_params_def grid_keys_def getitem_def)
  have n: "4 \<le> length (fst (temporal_train_test_split (load_gold_data (demo_rows 10)) (test_size demo_params)))"
    unfolding demo_split_10 by (simp add: demo_rows_def)
  have h: "data demo_params (''gold_'' @ ''v1'') = Some ''data/gold/gold_v1.csv''
       \<and> [''data/gold/gold_v1.csv'' \<mapsto> demo_rows 10] ''data/gold/gold_v1.csv'' = Some (demo_rows 10)
       \<and> 4 \<le> length (fst (temporal_train_test_split (load_gold_data (demo_rows 10)) (test_size demo_params)))
       \<and> param_grid (tuning demo_params) grid_keys = Inr [[50, 100], [3, 5], [1 / 10], [2]]
       \<and> [] \<notin> set [[50, 100], [3, 5], [1 / 10], [2::real]]
       \<and> model_hp demo_params ''random_state'' \<noteq> None \<and> model_hp demo_params ''subsample'' \<noteq> None
       \<and> model_hp demo_params ''min_samples_leaf'' \<noteq> None
       \<and> (\<forall>hp tr va. \<exists>m. demo_backend ''gradient_boosting'' hp tr va = Inr m)"
    using g n by (simp add: demo_params_def demo_backend_def)
  note u = grid_search_keeps_first_minimum
      [where p = demo_params and fs = "[''data/gold/gold_v1.csv'' \<mapsto> demo_rows 10]"
         and be = demo_backend and v = "''v1''" and dpath' = "''data/gold/gold_v1.csv''"
         and csv' = "demo_rows 10" and value_lists' = "[[50, 100], [3, 5], [1 / 10], [2]]",
       THEN conjunct2, rule_format, OF h]
  from demo_tune r0 r2 b g n u show ?thesis by blast
qed

section \<open>KPI tag of the runs\<close>

lemma tune_model_Inr:
  assumes "tune_model p fs be v = Inr (best_run_id, runs)"
  shows "\<exists>csv value_lists.
           list_all2 (run_of p be
              (fst (temporal_train_test_split (load_gold_data csv) (test_size p)))
              (snd (temporal_train_test_split (load_gold_data csv) (test_size p))))
             (itertools_product value_lists) runs"
proof -
  from assms obtain dpath where d: "data p (''gold_'' @ v) = Some dpath"
    by (auto simp: tune_model_def getitem_def split: option.splits)
  from assms d obtain csv where c: "fs dpath = Some csv"
    by (auto simp: tune_model_def getitem_def split: option.splits)
  define X_train where "X_train = fst (temporal_train_test_split (load_gold_data csv) (test_size p))"
  define X_test where "X_test = snd (temporal_train_test_split (load_gold_data csv) (test_size p))"
  have sp: "temporal_train_test_split (load_gold_data csv) (test_size p) = (X_train, X_test)"
    by (simp add: X_train_def X_test_def)
  from assms d c sp obtain value_lists where g: "param_grid (tuning p) grid_keys = Inr value_lists"
    by (auto simp: tune_model_def getitem_def Let_def split: sum.splits)
  from assms d c sp g obtain br hp where
    l: "tune_loop p be X_train X_test grid_keys (None, [])
          (enumerate 0 (itertools_product value_lists)) = Inr (Some (br, best_run_id, hp), runs)"
    by (auto simp: tune_model_def getitem_def Let_def split: sum.splits option.splits)
  have l': "tune_loop p be X_train X_test grid_keys (None, [])
          (enumerate (length ([]::tune_run list)) (itertools_product value_lists))
          = Inr (Some (br, best_run_id, hp), runs)"
    using l by simp
  from tune_loop_inv [OF l' search_inv_init]
  have "list_all2 (run_of p be X_train X_test) (itertools_product value_lists) runs"
    by auto
  then show ?thesis unfolding X_train_def X_test_def by blast
qed

lemma breach_train:
  "train_model demo_params [''data/gold/gold_v1.csv'' \<mapsto> demo_rows 10] breach_backend ''v1'' None None
     = Inr breach_run"
  by (simp add: train_defs demo_params_def demo_rows_def breach_backend_def breach_run_def upt_rec Let_def)

lemma breach_tune:
  "tune_model demo_params [''data/gold/gold_v1.csv'' \<mapsto> demo_rows 10] breach_backend ''v1'' =
     Inr (0, [breach_tune_run 0 50 3 True, breach_tune_run 1 50 5 False,
              breach_tune_run 2 100 3 False, breach_tune_run 3 100 5 False])"
  by (simp add: tune_model_def tune_step_def tune_hp_def grid_keys_def improves_def tune_status_def
        passes_def breach_tune_run_def train_defs demo_params_def demo_rows_def breach_backend_def
        upt_rec Let_def)

text \<open>
  C2. The KPI tag of every run \<^verbatim>\<open>train_model\<close> returns and of every run \<^verbatim>\<open>tune_model\<close>
  logs is PASS exactly when the test RMSE of that run is below \<^verbatim>\<open>rmse_acceptable\<close> and its
  test R2 is above \<^verbatim>\<open>r2_minimum\<close>, the test metrics being those of the backend on the
  held-out partition. The tag is the same for any other MAE value and any other MAE
  threshold, and \<^verbatim>\<open>train_model\<close> returns the same result under any other MAE threshold.
  The metrics rmse=1.0, mae=100.0, r2=0.9 against the thresholds 2.0, 1.0, 0.5 give PASS.
\<close>

theorem kpi_tag_gates_on_rmse_and_r2:
  "(train_model p fs be v mt cp = Inr r \<longrightarrow>
       (kpi_tag r = PASS)
         = (rmse (test_metrics r) < rmse_acceptable (thresholds p)
            \<and> r2_minimum (thresholds p) < r2 (test_metrics r))
     \<and> kpi_tag r = train_status ((test_metrics r)\<lparr>mae := m\<rparr>) ((thresholds p)\<lparr>mae_acceptable := a\<rparr>)
     \<and> (\<exists>dpath csv hp.
           data p (''gold_'' @ v) = Some dpath \<and> fs dpath = Some csv
         \<and> select_model p (chosen_type p mt) cp = Inr hp
         \<and> be (chosen_type p mt) hp
              (fst (temporal_train_test_split (load_gold_data csv) (test_size p)))
              (snd (temporal_train_test_split (load_gold_data csv) (test_size p))) = Inr (test_metrics r)))
   \<and> (tune_model p fs be v = Inr (best_run_id, runs) \<longrightarrow>
       (\<forall>x\<in>set runs.
          (tune_tag x = PASS)
            = (rmse (tune_metrics x) < rmse_acceptable (thresholds p)
               \<and> r2_minimum (thresholds p) < r2 (tune_metrics x))
        \<and> tune_tag x = tune_status ((tune_metrics x)\<lparr>mae := m\<rparr>) ((thresholds p)\<lparr>mae_acceptable := a\<rparr>)))
   \<and> train_model (p\<lparr>thresholds := (thresholds p)\<lparr>mae_acceptable := a\<rparr>\<rparr>) fs be v mt cp
       = train_model p fs be v mt cp
   \<and> train_status \<lparr>rmse = 1, mae = 100, r2 = 9 / 10\<rparr>
        \<lparr>rmse_acceptable = 2, mae_acceptable = 1, r2_minimum = 1 / 2\<rparr> = PASS
   \<and> tune_status \<lparr>rmse = 1, mae = 100, r2 = 9 / 10\<rparr>
        \<lparr>rmse_acceptable = 2, mae_acceptable = 1, r2_minimum = 1 / 2\<rparr> = PASS"
proof (intro conjI impI ballI)
  {
    assume r: "train_model p fs be v mt cp = Inr r"
    from train_model_Inr [OF r] obtain dpath csv hp where
      h: "data p (''gold_'' @ v) = Some dpath" "fs dpath = Some csv"
        "select_model p (chosen_type p mt) cp = Inr hp"
        "be (chosen_type p mt) hp
              (fst (temporal_train_test_split (load_gold_data csv) (test_size p)))
              (snd (temporal_train_test_split (load_gold_data csv) (test_size p))) = Inr (test_metrics r)"
      and k: "kpi_tag r = train_status (test_metrics r) (thresholds p)"
      by blast
    show "(kpi_tag r = PASS)
         = (rmse (test_metrics r) < rmse_acceptable (thresholds p)
            \<and> r2_minimum (thresholds p) < r2 (test_metrics r))"
      unfolding k by (rule gate_helpers(1))
    show "kpi_tag r = train_status ((test_metrics r)\<lparr>mae := m\<rparr>) ((thresholds p)\<lparr>mae_acceptable := a\<rparr>)"
      unfolding k by (rule gate_helpers(3) [symmetric])
    show "\<exists>dpath csv hp.
           data p (''gold_'' @ v) = Some dpath \<and> fs dpath = Some csv
         \<and> select_model p (chosen_type p mt) cp = Inr hp
         \<and> be (chosen_type p mt) hp
              (fst (temporal_train_test_split (load_gold_data csv) (test_size p)))
              (snd (temporal_train_test_split (load_gold_data csv) (test_size p))) = Inr (test_metrics r)"
      using h by blast
  }
  {
    fix x
    assume t: "tune_model p fs be v = Inr (best_run_id, runs)" and x: "x \<in> set runs"
    from tune_model_Inr [OF t] obtain csv value_lists where
      a2: "list_all2 (run_of p be
              (fst (temporal_train_test_split (load_gold_data csv) (test_size p)))
              (snd (temporal_train_test_split (load_gold_data csv) (test_size p))))
             (itertools_product value_lists) runs"
      by blast
    from x obtain i where i: "i < length runs" "runs ! i = x" by (auto simp: in_set_conv_nth)
    have "run_of p be
              (fst (temporal_train_test_split (load_gold_data csv) (test_size p)))
              (snd (temporal_train_test_split (load_gold_data csv) (test_size p)))
              (itertools_product value_lists ! i) (runs ! i)"
      using a2 i(1) by (simp add: list_all2_conv_all_nth)
    then have k: "tune_tag x = tune_status (tune_metrics x) (thresholds p)"
      using i(2) by (simp add: run_of_def)
    show "(tune_tag x = PASS)
            = (rmse (tune_metrics x) < rmse_acceptable (thresholds p)
               \<and> r2_minimum (thresholds p) < r2 (tune_metrics x))"
      unfolding k by (rule gate_helpers(2))
    show "tune_tag x = tune_status ((tune_metrics x)\<lparr>mae := m\<rparr>) ((thresholds p)\<lparr>mae_acceptable := a\<rparr>)"
      unfolding k by (rule gate_helpers(4) [symmetric])
  }
  show "train_model (p\<lparr>thresholds := (thresholds p)\<lparr>mae_acceptable := a\<rparr>\<rparr>) fs be v mt cp
       = train_model p fs be v mt cp"
  proof -
    have sm: "select_model (p\<lparr>thresholds := t\<rparr>) mtype cp = select_model p mtype cp" for t mtype
      by (simp add: select_model_def Let_def cong: if_cong sum.case_cong)
    have ts: "train_status tm ((thresholds p)\<lparr>mae_acceptable := a\<rparr>) = train_status tm (thresholds p)"
      for tm by (simp add: train_status_def rmse_ok_def r2_ok_def)
    show ?thesis
      by (simp add: train_model_def sm ts Let_def
            cong: sum.case_cong option.case_cong prod.case_cong if_cong)
  qed
  show "train_status \<lparr>rmse = 1, mae = 100, r2 = 9 / 10\<rparr>
        \<lparr>rmse_acceptable = 2, mae_acceptable = 1, r2_minimum = 1 / 2\<rparr> = PASS"
    by (simp add: train_status_def rmse_ok_def r2_ok_def)
  show "tune_status \<lparr>rmse = 1, mae = 100, r2 = 9 / 10\<rparr>
        \<lparr>rmse_acceptable = 2, mae_acceptable = 1, r2_minimum = 1 / 2\<rparr> = PASS"
    by (simp add: tune_status_def passes_def)
qed

theorem kpi_tag_gates_on_rmse_and_r2_witness:
  "train_model demo_params [''data/gold/gold_v1.csv'' \<mapsto> demo_rows 10] breach_backend ''v1'' None None
     = Inr breach_run
   \<and> test_metrics breach_run = \<lparr>rmse = 1, mae = 100, r2 = 9 / 10\<rparr>
   \<and> thresholds demo_params = \<lparr>rmse_acceptable = 2, mae_acceptable = 1, r2_minimum = 1 / 2\<rparr>
   \<and> kpi_tag breach_run = PASS
   \<and> tune_model demo_params [''data/gold/gold_v1.csv'' \<mapsto> demo_rows 10] breach_backend ''v1'' =
       Inr (0, [breach_tune_run 0 50 3 True, breach_tune_run 1 50 5 False,
                breach_tune_run 2 100 3 False, breach_tune_run 3 100 5 False])
   \<and> tune_metrics (breach_tune_run 1 50 5 False) = \<lparr>rmse = 1, mae = 100, r2 = 9 / 10\<rparr>
   \<and> tune_tag (breach_tune_run 1 50 5 False) = PASS"
proof -
  note t = kpi_tag_gates_on_rmse_and_r2
      [where p = demo_params and fs = "[''data/gold/gold_v1.csv'' \<mapsto> demo_rows 10]"
         and be = breach_backend and v = "''v1''" and mt = None and cp = None and r = breach_run
         and best_run_id = 0
         and runs = "[breach_tune_run 0 50 3 True, breach_tune_run 1 50 5 False,
                      breach_tune_run 2 100 3 False, breach_tune_run 3 100 5 False]"]
  have m: "test_metrics breach_run = \<lparr>rmse = 1, mae = 100, r2 = 9 / 10\<rparr>"
    by (simp add: breach_run_def Let_def)
  have th: "thresholds demo_params = \<lparr>rmse_acceptable = 2, mae_acceptable = 1, r2_minimum = 1 / 2\<rparr>"
    by (simp add: demo_params_def)
  have tm: "tune_metrics (breach_tune_run 1 50 5 False) = \<lparr>rmse = 1, mae = 100, r2 = 9 / 10\<rparr>"
    by (simp add: breach_tune_run_def)
  from t [THEN conjunct1, rule_format, OF breach_train, THEN conjunct1] m th
  have k: "kpi_tag breach_run = PASS" by simp
  have "breach_tune_run 1 50 5 False \<in> set [breach_tune_run 0 50 3 True, breach_tune_run 1 50 5 False,
                      breach_tune_run 2 100 3 False, breach_tune_run 3 100 5 False]" by simp
  from t [THEN conjunct2, THEN conjunct1, rule_format, OF breach_tune this, THEN conjunct1] tm th
  have k2: "tune_tag (breach_tune_run 1 50 5 False) = PASS" by simp
  from breach_train m th k breach_tune tm k2 show ?thesis by blast
qed

end
